(* ===== verification/Drocm_Prelude.thy ===== *)
theory Drocm_Prelude
  imports Main "HOL-Library.Word" "HOL-Library.Multiset"
begin

text \<open>
  Shared vocabulary of the D-RoCM development: the fixed-width types of the C++ code, the
  decimal rendering of \<^verbatim>\<open>std::to_string\<close>, the atomic exchange of
  \<^verbatim>\<open>std::atomic\<close>, reachable states of a labelled step relation, and the two
  interfaces that several components implement: an inductive invariant of a transition system
  and the start/stop life cycle of a background service.
\<close>

section \<open>Machine types\<close>

text \<open>
  \<^verbatim>\<open>uint32_t\<close>, \<^verbatim>\<open>uint64_t\<close> and \<^verbatim>\<open>int64_t\<close> keep their width; arithmetic on
  them wraps. A \<^verbatim>\<open>float\<close> of the registry is only stored, copied and sent, never computed
  with, so it is its 32-bit pattern. A \<^verbatim>\<open>steady_clock::time_point\<close> is its count of ticks.
\<close>

type_synonym u32 = "32 word"
type_synonym u64 = "64 word"
type_synonym i64 = "64 word"
type_synonym float32 = "32 word"
type_synonym time_point = int

named_theorems table_simps \<open>equations of the node table operations\<close>
named_theorems step_simps \<open>unfolding rules of the step relations\<close>

section \<open>Atomic exchange\<close>

text \<open>\<^verbatim>\<open>x.exchange(v)\<close> stores \<open>v\<close> and returns the old value.\<close>

definition atomic_exchange :: "'a \<Rightarrow> 'a \<Rightarrow> 'a \<times> 'a" where
  "atomic_exchange old new = (old, new)"

section \<open>Threads\<close>

text \<open>A \<^verbatim>\<open>std::jthread\<close>: not joinable, or joinable with the state of its stop token.\<close>

datatype jthread = NotJoinable | Joinable bool

fun joinable :: "jthread \<Rightarrow> bool" where
  "joinable NotJoinable = False"
| "joinable (Joinable _) = True"

fun request_stop :: "jthread \<Rightarrow> jthread" where
  "request_stop NotJoinable = NotJoinable"
| "request_stop (Joinable _) = Joinable True"

text \<open>\<^verbatim>\<open>join()\<close> returns when the thread has ended; the object is not joinable afterwards.\<close>

definition join :: "jthread \<Rightarrow> jthread" where
  "join th = NotJoinable"

section \<open>Decimal rendering\<close>

definition digit_char :: "nat \<Rightarrow> char" where
  "digit_char d = char_of (48 + d)"

fun digits_of_nat :: "nat \<Rightarrow> string" where
  "digits_of_nat n =
     (if n < 10 then [digit_char n] else digits_of_nat (n div 10) @ [digit_char (n mod 10)])"

declare digits_of_nat.simps [simp del]

text \<open>\<^verbatim>\<open>std::to_string\<close> on an integer: a minus sign where negative, then the digits.\<close>

definition to_string :: "int \<Rightarrow> string" where
  "to_string i = (if i < 0 then CHR ''-'' # digits_of_nat (nat (- i)) else digits_of_nat (nat i))"

definition nat_of_digits :: "string \<Rightarrow> nat" where
  "nat_of_digits s = foldl (\<lambda>a c. 10 * a + (of_char c - 48)) 0 s"

definition int_of_string :: "string \<Rightarrow> int" where
  "int_of_string s =
     (case s of [] \<Rightarrow> 0
      | c # cs \<Rightarrow> if c = CHR ''-'' then - int (nat_of_digits cs) else int (nat_of_digits s))"

lemma of_char_digit_char [simp]: "d < 10 \<Longrightarrow> of_char (digit_char d) = (48 + d :: nat)"
  by (simp add: digit_char_def)

lemma digits_of_nat_not_Nil [simp]: "digits_of_nat n \<noteq> []"
  by (subst digits_of_nat.simps) simp

lemma digits_of_nat_set: "c \<in> set (digits_of_nat n) \<Longrightarrow> of_char c \<in> {48..57 :: nat}"
proof (induction n rule: digits_of_nat.induct)
  case (1 n)
  show ?case
  proof (cases "n < 10")
    case True
    with "1.prems" show ?thesis by (simp add: digits_of_nat.simps [of n])
  next
    case False
    with "1.prems" have "c \<in> set (digits_of_nat (n div 10)) \<or> c = digit_char (n mod 10)"
      by (auto simp: digits_of_nat.simps [of n])
    with False "1.IH" show ?thesis by auto
  qed
qed

lemma minus_not_digit: "CHR ''-'' \<notin> set (digits_of_nat n)"
proof
  assume "CHR ''-'' \<in> set (digits_of_nat n)"
  then have "of_char CHR ''-'' \<in> {48..57 :: nat}" by (rule digits_of_nat_set)
  then show False by simp
qed

lemma nat_of_digits_digits_of_nat [simp]: "nat_of_digits (digits_of_nat n) = n"
proof (induction n rule: digits_of_nat.induct)
  case (1 n)
  show ?case
  proof (cases "n < 10")
    case True
    then show ?thesis by (simp add: digits_of_nat.simps [of n] nat_of_digits_def)
  next
    case False
    with "1.IH" have "nat_of_digits (digits_of_nat (n div 10)) = n div 10" by simp
    with False show ?thesis
      by (simp add: digits_of_nat.simps [of n] nat_of_digits_def)
  qed
qed

lemma int_of_string_to_string [simp]: "int_of_string (to_string i) = i"
proof (cases "i < 0")
  case True
  then show ?thesis by (simp add: to_string_def int_of_string_def)
next
  case False
  obtain c cs where s: "digits_of_nat (nat i) = c # cs"
    by (cases "digits_of_nat (nat i)") auto
  with minus_not_digit [of "nat i"] have "c \<noteq> CHR ''-''" by auto
  moreover have "nat_of_digits (c # cs) = nat i"
    by (simp flip: s)
  ultimately show ?thesis using False s
    by (simp add: to_string_def int_of_string_def)
qed

lemma to_string_inj: "to_string i = to_string j \<longleftrightarrow> i = j"
  by (metis int_of_string_to_string)

text \<open>A separator that is no digit and no sign splits a rendered number off unambiguously.\<close>

lemma not_in_to_string:
  assumes "c \<noteq> CHR ''-''" and "of_char c \<notin> {48..57 :: nat}"
  shows "c \<notin> set (to_string i)"
  using assms digits_of_nat_set by (auto simp: to_string_def)

lemma underscore_not_in_to_string: "CHR ''_'' \<notin> set (to_string i)"
  by (rule not_in_to_string) simp_all

lemma split_last_separator:
  assumes "xs @ c # ds = ys @ c # es" and "c \<notin> set ds" and "c \<notin> set es"
  shows "xs = ys \<and> ds = es"
  using assms
proof (induction xs arbitrary: ys)
  case Nil
  then show ?case by (cases ys) (auto simp: Cons_eq_append_conv)
next
  case (Cons x xs)
  then show ?case by (cases ys) (auto simp: append_eq_Cons_conv Cons_eq_append_conv)
qed

section \<open>Words\<close>

lemma word_bump_eq: "(word_of_nat c :: u32) + 1 = word_of_nat (Suc c)"
  by simp

lemma word_le_of_nat: "c < 2 ^ 32 \<Longrightarrow> (m \<le> (word_of_nat c :: u32)) \<longleftrightarrow> unat m \<le> c"
  by (simp add: word_le_nat_alt take_bit_nat_eq_self unat_of_nat)

lemma unat_plus_one_u32:
  assumes "(x :: u32) < m"
  shows "unat (x + 1) = Suc (unat x)"
proof -
  have "unat x < unat m" using assms by (simp add: word_less_nat_alt)
  moreover have "unat m < 2 ^ 32" using unsigned_less [of m] by simp
  ultimately have "Suc (unat x) < 2 ^ 32" by linarith
  then show ?thesis by (simp add: unat_word_ariths)
qed

section \<open>The int type\<close>

text \<open>
  Arithmetic on a 32-bit \<^verbatim>\<open>int\<close>, which does not wrap: a sum or product out of range is
  undefined, as is a shift by a negative count or by 32 or more (a defined left shift wraps, as in
  C++20). Undefined behaviour is None.
\<close>

definition int_of :: "int \<Rightarrow> int option" where
  "int_of k = (if - (2 ^ 31) \<le> k \<and> k < 2 ^ 31 then Some k else None)"

definition int_plus :: "int \<Rightarrow> int \<Rightarrow> int option" where
  "int_plus a b = int_of (a + b)"

definition int_times :: "int \<Rightarrow> int \<Rightarrow> int option" where
  "int_times a b = int_of (a * b)"

definition int_shl :: "int \<Rightarrow> int \<Rightarrow> int option" where
  "int_shl a n = (if 0 \<le> n \<and> n < 32 then Some (signed_take_bit 31 (a * 2 ^ nat n)) else None)"

lemma int_of_ok [simp]: "- (2 ^ 31) \<le> k \<Longrightarrow> k < 2 ^ 31 \<Longrightarrow> int_of k = Some k"
  by (simp add: int_of_def)

lemma int_shl_ok:
  assumes "0 \<le> a" and "0 \<le> n" and "n < 32" and "a * 2 ^ nat n < 2 ^ 31"
  shows "int_shl a n = Some (a * 2 ^ nat n)"
proof -
  have "0 \<le> a * 2 ^ nat n" using assms(1) by simp
  moreover have "- (2 ^ 31) \<le> (0 :: int)" by simp
  ultimately have "- (2 ^ 31) \<le> a * 2 ^ nat n" by (rule order.trans [rotated])
  then have "signed_take_bit 31 (a * 2 ^ nat n) = a * 2 ^ nat n"
    using assms(4) by (intro signed_take_bit_int_eq_self)
  with assms show ?thesis by (simp add: int_shl_def)
qed

section \<open>Association lists\<close>

lemma map_of_filter_key:
  "map_of (filter (\<lambda>p. fst p \<noteq> k) m) = (map_of m)(k := None)"
  by (induction m) (auto simp: fun_eq_iff)

lemma map_of_filter_distinct:
  "distinct (map fst m) \<Longrightarrow>
   map_of (filter P m) k = (case map_of m k of None \<Rightarrow> None | Some v \<Rightarrow> if P (k, v) then Some v else None)"
  by (induction m) (auto split: option.splits simp: map_of_eq_None_iff dest: map_of_SomeD)

lemma map_of_map_values:
  "map_of (map (\<lambda>(k, v). (k, f k v)) m) k = map_option (f k) (map_of m k)"
  by (induction m) auto

lemma distinct_filter_keys: "distinct (map fst m) \<Longrightarrow> distinct (map fst (filter P m))"
  by (induction m) auto

lemma fst_map_values [simp]: "map fst (map (\<lambda>(k, v). (k, f k v)) m) = map fst m"
  by (induction m) auto

lemma mset_eq_map_of:
  assumes "mset m = mset m'" and "distinct (map fst m)"
  shows "map_of m = map_of m'"
proof -
  have "distinct (map fst m')"
    using assms by (metis mset_eq_imp_distinct_iff mset_map)
  moreover have "set m = set m'"
    using assms(1) by (rule mset_eq_setD)
  ultimately show ?thesis
    using assms(2) by (metis map_of_inject_set)
qed

section \<open>Reachable states and invariants\<close>

inductive reach :: "('s \<Rightarrow> bool) \<Rightarrow> ('s \<Rightarrow> 'e \<Rightarrow> 's \<Rightarrow> bool) \<Rightarrow> 's \<Rightarrow> bool"
  for init :: "'s \<Rightarrow> bool" and step :: "'s \<Rightarrow> 'e \<Rightarrow> 's \<Rightarrow> bool" where
  reach_init: "init s \<Longrightarrow> reach init step s"
| reach_step: "reach init step s \<Longrightarrow> step s e s' \<Longrightarrow> reach init step s'"

text \<open>
  An invariant of a transition system: true at the start and kept by every step. The client
  lemma lifts it to every reachable state, and a second lemma carries a property that one step
  cannot undo along a whole run.
\<close>

inductive steps :: "('s \<Rightarrow> 'e \<Rightarrow> 's \<Rightarrow> bool) \<Rightarrow> 's \<Rightarrow> 'e list \<Rightarrow> 's \<Rightarrow> bool"
  for step :: "'s \<Rightarrow> 'e \<Rightarrow> 's \<Rightarrow> bool" where
  steps_Nil: "steps step s [] s"
| steps_Cons: "step s e s' \<Longrightarrow> steps step s' es s'' \<Longrightarrow> steps step s (e # es) s''"

inductive_cases steps_NilE [elim!]: "steps step s [] s'"
inductive_cases steps_ConsE [elim!]: "steps step s (e # es) s''"

inductive_simps steps_simps:
  "steps step s [] s'"
  "steps step s (e # es) s'"

lemma reach_steps: "steps step s es s' \<Longrightarrow> reach init step s \<Longrightarrow> reach init step s'"
  by (induction rule: steps.induct) (auto intro: reach_step)

lemma steps_append: "steps step s es s' \<Longrightarrow> steps step s' es' s'' \<Longrightarrow> steps step s (es @ es') s''"
  by (induction rule: steps.induct) (auto intro: steps_Cons)

locale transition_invariant =
  fixes init :: "'s \<Rightarrow> bool"
    and step :: "'s \<Rightarrow> 'e \<Rightarrow> 's \<Rightarrow> bool"
    and inv :: "'s \<Rightarrow> bool"
  assumes inv_init: "init s \<Longrightarrow> inv s"
    and inv_step: "inv s \<Longrightarrow> step s e s' \<Longrightarrow> inv s'"
begin

lemma reach_inv: "reach init step s \<Longrightarrow> inv s"
  by (induction rule: reach.induct) (auto intro: inv_init inv_step)

lemma steps_inv: "steps step s es s' \<Longrightarrow> inv s \<Longrightarrow> inv s'"
  by (induction rule: steps.induct) (auto intro: inv_step)

lemma steps_stable:
  assumes "steps step s es s'" and "inv s" and "P s"
    and "\<And>u e u'. inv u \<Longrightarrow> step u e u' \<Longrightarrow> e \<in> set es \<Longrightarrow> P u \<Longrightarrow> P u'"
  shows "P s'"
  using assms
proof (induction rule: steps.induct)
  case (steps_Nil s)
  then show ?case by simp
next
  case (steps_Cons s e s' es s'')
  have "inv s'" using steps_Cons.hyps(1) steps_Cons.prems(1) by (blast intro: inv_step)
  moreover have "P s'"
    using steps_Cons.prems(3) [OF steps_Cons.prems(1) steps_Cons.hyps(1)] steps_Cons.prems(2) by simp
  ultimately show ?case
    using steps_Cons.IH steps_Cons.prems(3) by (metis list.set_intros(2))
qed

end

section \<open>Life cycle of a background service\<close>

text \<open>
  The contract that the health checker, the transport manager and the logger share: starting a
  service that runs and stopping one that does not are no-ops, and the running flag follows the
  last command. Commands are the booleans True (start) and False (stop).
\<close>

locale service_lifecycle =
  fixes ok :: "'s \<Rightarrow> bool"
    and start :: "'s \<Rightarrow> 's"
    and stop :: "'s \<Rightarrow> 's"
    and running :: "'s \<Rightarrow> bool"
  assumes ok_start: "ok s \<Longrightarrow> ok (start s)"
    and ok_stop: "ok s \<Longrightarrow> ok (stop s)"
    and start_running: "ok s \<Longrightarrow> running (start s)"
    and stop_halts: "ok s \<Longrightarrow> \<not> running (stop s)"
    and start_noop: "ok s \<Longrightarrow> running s \<Longrightarrow> start s = s"
    and stop_noop: "ok s \<Longrightarrow> \<not> running s \<Longrightarrow> stop s = s"
begin

abbreviation exec :: "bool \<Rightarrow> 's \<Rightarrow> 's" where
  "exec c \<equiv> (if c then start else stop)"

lemma start_idem: "ok s \<Longrightarrow> start (start s) = start s"
  by (simp add: ok_start start_running start_noop)

lemma stop_idem: "ok s \<Longrightarrow> stop (stop s) = stop s"
  by (simp add: ok_stop stop_halts stop_noop)

lemma exec_all_ok: "ok s \<Longrightarrow> ok (fold exec cs s)"
  by (induction cs arbitrary: s) (simp_all add: ok_start ok_stop)

lemma running_last: "ok s \<Longrightarrow> running (fold exec (cs @ [c]) s) = c"
  using exec_all_ok [of s cs] by (simp add: start_running stop_halts)

end

end
