(* ===== verification/Unordered_Map.thy ===== *)
theory Unordered_Map
  imports Drocm_Prelude
begin

text \<open>
  The part of \<^verbatim>\<open>std::unordered_map\<close> the node table uses. A map is the list of its
  key-value pairs in iteration order, with distinct keys. The standard leaves the iteration order
  open except that \<^verbatim>\<open>erase\<close> keeps the order of the other elements; insertion here puts the
  new pair first. The equivalence \<open>um_equiv\<close> (the same pairs in any order) is what clients may
  rely on, and every operation respects it.
\<close>

type_synonym ('k, 'v) umap = "('k \<times> 'v) list"

definition um_invar :: "('k, 'v) umap \<Rightarrow> bool" where
  "um_invar m \<longleftrightarrow> distinct (map fst m)"

definition um_find :: "'k \<Rightarrow> ('k, 'v) umap \<Rightarrow> 'v option" where
  "um_find k m = map_of m k"

definition um_contains :: "'k \<Rightarrow> ('k, 'v) umap \<Rightarrow> bool" where
  "um_contains k m \<longleftrightarrow> um_find k m \<noteq> None"

definition um_try_emplace :: "'k \<Rightarrow> 'v \<Rightarrow> ('k, 'v) umap \<Rightarrow> ('k, 'v) umap \<times> bool" where
  "um_try_emplace k v m =
     (case um_find k m of Some _ \<Rightarrow> (m, False) | None \<Rightarrow> ((k, v) # m, True))"

definition um_erase :: "'k \<Rightarrow> ('k, 'v) umap \<Rightarrow> ('k, 'v) umap" where
  "um_erase k m = filter (\<lambda>p. fst p \<noteq> k) m"

text \<open>Writing through \<^verbatim>\<open>it->second\<close> where the iterator points at key \<open>k\<close>.\<close>

definition um_modify :: "'k \<Rightarrow> ('v \<Rightarrow> 'v) \<Rightarrow> ('k, 'v) umap \<Rightarrow> ('k, 'v) umap" where
  "um_modify k f m = map (\<lambda>(k', v). (k', if k' = k then f v else v)) m"

definition um_equiv :: "('k, 'v) umap \<Rightarrow> ('k, 'v) umap \<Rightarrow> bool" where
  "um_equiv m m' \<longleftrightarrow> um_invar m \<and> mset m = mset m'"

section \<open>The interface of a hash map\<close>

locale hash_map =
  fixes invar :: "'m \<Rightarrow> bool"
    and find :: "'k \<Rightarrow> 'm \<Rightarrow> 'v option"
    and try_emplace :: "'k \<Rightarrow> 'v \<Rightarrow> 'm \<Rightarrow> 'm \<times> bool"
    and erase :: "'k \<Rightarrow> 'm \<Rightarrow> 'm"
    and modify :: "'k \<Rightarrow> ('v \<Rightarrow> 'v) \<Rightarrow> 'm \<Rightarrow> 'm"
    and size_of :: "'m \<Rightarrow> nat"
  assumes find_emplace:
      "find k (fst (try_emplace k' v m)) =
         (if k = k' \<and> find k m = None then Some v else find k m)"
    and inserted_iff: "snd (try_emplace k v m) \<longleftrightarrow> find k m = None"
    and find_erase: "find k (erase k' m) = (if k = k' then None else find k m)"
    and find_modify: "find k (modify k' f m) = (if k = k' then map_option f (find k m) else find k m)"
    and invar_emplace: "invar m \<Longrightarrow> invar (fst (try_emplace k v m))"
    and invar_erase: "invar m \<Longrightarrow> invar (erase k m)"
    and invar_modify: "invar m \<Longrightarrow> invar (modify k f m)"
    and size_dom: "invar m \<Longrightarrow> size_of m = card (dom (\<lambda>k. find k m))"
    and finite_dom: "finite (dom (\<lambda>k. find k m))"
begin

text \<open>Emplacing a new key and erasing it again gives back the lookup function.\<close>

lemma emplace_erase: "find k m = None \<Longrightarrow> find k' (erase k (fst (try_emplace k v m))) = find k' m"
  by (simp add: find_erase find_emplace)

lemma size_emplace:
  assumes "invar m"
  shows "size_of (fst (try_emplace k v m)) = (if find k m = None then Suc (size_of m) else size_of m)"
proof -
  have "dom (\<lambda>k'. find k' (fst (try_emplace k v m))) =
        (if find k m = None then insert k (dom (\<lambda>k'. find k' m)) else dom (\<lambda>k'. find k' m))"
    by (auto simp: find_emplace split: if_splits)
  moreover have "find k m = None \<Longrightarrow> k \<notin> dom (\<lambda>k'. find k' m)"
    by (simp add: domIff)
  ultimately show ?thesis
    using assms by (simp add: size_dom invar_emplace finite_dom)
qed

lemma size_erase:
  assumes "invar m"
  shows "size_of (erase k m) = (if find k m = None then size_of m else size_of m - 1)"
proof -
  have "dom (\<lambda>k'. find k' (erase k m)) = dom (\<lambda>k'. find k' m) - {k}"
    by (auto simp: find_erase split: if_splits)
  then show ?thesis
    using assms by (simp add: size_dom invar_erase finite_dom card_Diff_singleton_if domIff)
qed

lemma size_modify:
  assumes "invar m"
  shows "size_of (modify k f m) = size_of m"
proof -
  have "dom (\<lambda>k'. find k' (modify k f m)) = dom (\<lambda>k'. find k' m)"
    by (auto simp: find_modify split: if_splits)
  then show ?thesis using assms by (simp add: size_dom invar_modify)
qed

end

lemma um_find_Some_set: "um_find k m = Some v \<Longrightarrow> (k, v) \<in> set m"
  by (simp add: um_find_def map_of_SomeD)

lemma um_find_iff: "um_invar m \<Longrightarrow> um_find k m = Some v \<longleftrightarrow> (k, v) \<in> set m"
  by (simp add: um_find_def um_invar_def)

lemma um_find_dom: "dom (\<lambda>k. um_find k m) = fst ` set m"
  by (simp add: um_find_def dom_map_of_conv_image_fst)

lemma um_invar_map_values [simp]: "um_invar (map (\<lambda>(k, v). (k, f k v)) m) \<longleftrightarrow> um_invar m"
  by (simp add: um_invar_def del: map_map)

interpretation um: hash_map um_invar um_find um_try_emplace um_erase um_modify length
proof (unfold_locales, goal_cases)
  case (1 k k' v m)
  show ?case by (cases "map_of m k'") (auto simp: um_try_emplace_def um_find_def)
next
  case (2 k v m)
  show ?case by (cases "map_of m k") (auto simp: um_try_emplace_def um_find_def)
next
  case (3 k k' m)
  show ?case by (simp add: um_find_def um_erase_def map_of_filter_key)
next
  case (4 k k' f m)
  show ?case
    by (simp add: um_find_def um_modify_def map_of_map_values option.map_ident)
next
  case (5 m k v)
  then show ?case
    by (auto simp: um_try_emplace_def um_find_def um_invar_def map_of_eq_None_iff
        split: option.split)
next
  case (6 m k)
  then show ?case by (simp add: um_invar_def um_erase_def distinct_filter_keys)
next
  case (7 m k f)
  then show ?case by (simp add: um_modify_def)
next
  case (8 m)
  then show ?case
    by (metis distinct_card length_map list.set_map um_invar_def um_find_dom)
next
  case (9 m)
  show ?case by (simp add: um_find_dom)
qed

section \<open>Iteration order is not observable\<close>

lemma um_equiv_find: "um_equiv m m' \<Longrightarrow> um_find k m = um_find k m'"
  by (simp add: um_equiv_def um_invar_def um_find_def mset_eq_map_of)

lemma um_equiv_invar: "um_equiv m m' \<Longrightarrow> um_invar m'"
  unfolding um_equiv_def um_invar_def by (metis mset_eq_imp_distinct_iff mset_map)

lemma um_equiv_size: "um_equiv m m' \<Longrightarrow> length m = length m'"
  unfolding um_equiv_def by (metis size_mset)

lemma um_equiv_emplace:
  assumes "um_equiv m m'"
  shows "um_equiv (fst (um_try_emplace k v m)) (fst (um_try_emplace k v m'))"
    and "snd (um_try_emplace k v m) = snd (um_try_emplace k v m')"
proof -
  have f: "um_find k m = um_find k m'" using assms by (rule um_equiv_find)
  have "um_invar (fst (um_try_emplace k v m))"
    using assms by (simp add: um_equiv_def um.invar_emplace)
  moreover have "mset (fst (um_try_emplace k v m)) = mset (fst (um_try_emplace k v m'))"
    using assms f by (auto simp: um_try_emplace_def um_equiv_def split: option.split)
  ultimately show "um_equiv (fst (um_try_emplace k v m)) (fst (um_try_emplace k v m'))"
    by (simp add: um_equiv_def)
  show "snd (um_try_emplace k v m) = snd (um_try_emplace k v m')"
    using f by (simp add: um.inserted_iff)
qed

lemma um_equiv_erase: "um_equiv m m' \<Longrightarrow> um_equiv (um_erase k m) (um_erase k m')"
  by (simp add: um_equiv_def um.invar_erase) (simp add: um_erase_def)

lemma um_equiv_map_values:
  assumes "um_equiv m m'"
  shows "um_equiv (map (\<lambda>(k, v). (k, f k v)) m) (map (\<lambda>(k, v). (k, f k v)) m')"
  using assms by (simp add: um_equiv_def)

lemma um_equiv_modify: "um_equiv m m' \<Longrightarrow> um_equiv (um_modify k f m) (um_modify k f m')"
  unfolding um_modify_def by (rule um_equiv_map_values)

lemma um_equiv_filter: "um_equiv m m' \<Longrightarrow> um_equiv (filter P m) (filter P m')"
  by (simp add: um_equiv_def um_invar_def distinct_filter_keys)

end
