(* ===== verification/Messages.thy ===== *)
theory Messages
  imports Drocm_Prelude
begin

text \<open>
  The Protobuf messages of \<^verbatim>\<open>proto/common.proto\<close>, \<^verbatim>\<open>proto/registry.proto\<close> and
  \<^verbatim>\<open>proto/node.proto\<close> that the C++ code reads or fills, one record per message, with the
  field values a freshly constructed proto3 message has, and the \<^verbatim>\<open>grpc::Status\<close> pair that
  every RPC handler returns. A message-typed field is an option: proto3 tracks its presence.
\<close>

section \<open>common.proto\<close>

record NodeInfo =
  node_id :: string
  ip_address :: string
  port :: u32
  services :: "string list"
  startup_timestamp :: u64

definition NodeInfo_default :: NodeInfo where
  "NodeInfo_default =
     \<lparr>node_id = '''', ip_address = '''', port = 0, services = [], startup_timestamp = 0\<rparr>"

section \<open>registry.proto\<close>

record RegisterRequest =
  rq_node_info :: "NodeInfo option"
  rq_cpu_usage :: float32
  rq_memory_usage :: float32

definition RegisterRequest_default :: RegisterRequest where
  "RegisterRequest_default = \<lparr>rq_node_info = None, rq_cpu_usage = 0, rq_memory_usage = 0\<rparr>"

record RegisterResponse =
  rr_success :: bool
  rr_session_id :: string
  rr_heartbeat_interval :: u32
  rr_error_message :: string

definition RegisterResponse_default :: RegisterResponse where
  "RegisterResponse_default =
     \<lparr>rr_success = False, rr_session_id = '''', rr_heartbeat_interval = 0, rr_error_message = ''''\<rparr>"

record HeartbeatRequest =
  hq_node_id :: string
  hq_session_id :: string
  hq_timestamp :: u64
  hq_cpu_usage :: float32
  hq_memory_usage :: float32
  hq_active_connections :: u32

definition HeartbeatRequest_default :: HeartbeatRequest where
  "HeartbeatRequest_default =
     \<lparr>hq_node_id = '''', hq_session_id = '''', hq_timestamp = 0, hq_cpu_usage = 0,
      hq_memory_usage = 0, hq_active_connections = 0\<rparr>"

record HeartbeatResponse =
  hr_success :: bool
  hr_missed_heartbeats :: u32
  hr_should_reconnect :: bool

definition HeartbeatResponse_default :: HeartbeatResponse where
  "HeartbeatResponse_default =
     \<lparr>hr_success = False, hr_missed_heartbeats = 0, hr_should_reconnect = False\<rparr>"

record DeregisterRequest =
  dq_node_id :: string
  dq_session_id :: string
  dq_reason :: string

definition DeregisterRequest_default :: DeregisterRequest where
  "DeregisterRequest_default = \<lparr>dq_node_id = '''', dq_session_id = '''', dq_reason = ''''\<rparr>"

record DeregisterResponse =
  dr_success :: bool
  dr_message :: string

definition DeregisterResponse_default :: DeregisterResponse where
  "DeregisterResponse_default = \<lparr>dr_success = False, dr_message = ''''\<rparr>"

record DiscoverRequest =
  service_filter :: "string list"

record DiscoverResponse =
  dresp_nodes :: "NodeInfo list"

definition DiscoverResponse_default :: DiscoverResponse where
  "DiscoverResponse_default = \<lparr>dresp_nodes = []\<rparr>"

section \<open>node.proto\<close>

text \<open>The messages of the node service and the ones of \<^verbatim>\<open>common.proto\<close> inside them. A
  \<^verbatim>\<open>double\<close> that is only carried along is its 64-bit pattern.\<close>

record Vector3 =
  vec_x :: "64 word"
  vec_y :: "64 word"
  vec_z :: "64 word"

record Pose2D =
  pose_x :: "64 word"
  pose_y :: "64 word"
  pose_theta :: "64 word"

text \<open>A message field that is not set is None.\<close>

record Pose3D =
  p3_position :: "Vector3 option"
  p3_orientation_w :: "64 word"
  p3_orientation_x :: "64 word"
  p3_orientation_y :: "64 word"
  p3_orientation_z :: "64 word"

record RobotStatus =
  st_timestamp :: u64
  st_pose :: "Pose2D option"
  st_battery_level :: float32
  st_velocity_linear :: float32
  st_velocity_angular :: float32
  st_is_emergency :: bool
  st_error_code :: u32

record VelocityCommand =
  linear_velocity :: float32
  angular_velocity :: float32

record PoseCommand =
  target_pose :: "Pose2D option"
  max_velocity :: float32
  tolerance :: float32

datatype command_type =
    Velocity VelocityCommand
  | PoseTarget PoseCommand
  | Stop bool

record RobotCommand =
  cmd_timestamp :: u64
  cmd_command_id :: string
  cmd_type :: "command_type option"

record CommandResult =
  res_command_id :: string
  res_success :: bool
  res_error_message :: string
  res_execution_time :: u64

record GetStatusRequest =
  requester_id :: string
  gq_timestamp :: u64

record GetStatusResponse =
  gr_status :: "RobotStatus option"
  gr_response_time :: u64

record SubscribeRequest =
  subscriber_id :: string
  sq_topic :: string
  qos :: u32

record TopicData =
  td_topic :: string
  td_timestamp :: u64
  td_payload :: string
  td_payload_type :: string

definition TopicData_default :: TopicData where
  "TopicData_default = \<lparr>td_topic = '''', td_timestamp = 0, td_payload = '''', td_payload_type = ''''\<rparr>"

record ControlStreamRequest =
  controller_id :: string
  cq_session_id :: string
  cq_command :: "RobotCommand option"

record ControlStreamResponse =
  cr_session_id :: string
  cr_result :: "CommandResult option"

definition ControlStreamResponse_default :: ControlStreamResponse where
  "ControlStreamResponse_default = \<lparr>cr_session_id = '''', cr_result = None\<rparr>"

section \<open>grpc::Status\<close>

text \<open>
  The status codes of the gRPC API that the sources name, and the status value: a code and a
  message. \<^verbatim>\<open>grpc::Status::OK\<close> is the status with code OK and no message.
\<close>

datatype StatusCode =
    SC_OK
  | SC_CANCELLED
  | SC_INVALID_ARGUMENT
  | SC_DEADLINE_EXCEEDED
  | SC_NOT_FOUND
  | SC_ALREADY_EXISTS
  | SC_UNAVAILABLE

record Status =
  error_code :: StatusCode
  error_message :: string

definition Status_OK :: Status where
  "Status_OK = \<lparr>error_code = SC_OK, error_message = ''''\<rparr>"

definition mk_status :: "StatusCode \<Rightarrow> string \<Rightarrow> Status" where
  "mk_status c m = \<lparr>error_code = c, error_message = m\<rparr>"

definition status_ok :: "Status \<Rightarrow> bool" where
  "status_ok st \<longleftrightarrow> error_code st = SC_OK"

lemma status_ok_simps [simp]:
  "status_ok Status_OK"
  "status_ok (mk_status c m) \<longleftrightarrow> c = SC_OK"
  "error_code Status_OK = SC_OK"
  "error_code (mk_status c m) = c"
  by (simp_all add: status_ok_def Status_OK_def mk_status_def)

section \<open>Remote calls\<close>

text \<open>
  A synchronous call through a generated gRPC stub: from the request, the response object passed in
  and the state of the world behind the stub to the status, the response object afterwards and the
  new world. The stubs are code outside the repository, so they are arguments of the definitions
  that call them.
\<close>

type_synonym 'w register_call =
  "RegisterRequest \<Rightarrow> RegisterResponse \<Rightarrow> 'w \<Rightarrow> Status \<times> RegisterResponse \<times> 'w"
type_synonym 'w heartbeat_call =
  "HeartbeatRequest \<Rightarrow> HeartbeatResponse \<Rightarrow> 'w \<Rightarrow> Status \<times> HeartbeatResponse \<times> 'w"
type_synonym 'w deregister_call =
  "DeregisterRequest \<Rightarrow> DeregisterResponse \<Rightarrow> 'w \<Rightarrow> Status \<times> DeregisterResponse \<times> 'w"

text \<open>
  A server of a program: not built yet, null because \<^verbatim>\<open>BuildAndStart\<close> could not bind the port, accepting
  calls, or shut down, when it only waits for the handlers of the calls it has accepted.
\<close>

datatype server_state = Sv_Unbuilt | Sv_Null | Sv_Serving | Sv_Shutdown

lemmas message_defaults =
  NodeInfo_default_def RegisterRequest_default_def RegisterResponse_default_def
  HeartbeatRequest_default_def HeartbeatResponse_default_def DeregisterRequest_default_def
  DeregisterResponse_default_def DiscoverResponse_default_def

end
