(* ===== verification/Node_Table.thy ===== *)
theory Node_Table
  imports Unordered_Map Messages
begin

text \<open>
  \<^verbatim>\<open>src/registry/node_table.h\<close> and \<^verbatim>\<open>node_table.cpp\<close>: the table of registered
  nodes. Every public operation of the C++ class takes \<^verbatim>\<open>mutex_\<close> for its whole body, so an
  operation is one atomic function on the table. \<^verbatim>\<open>steady_clock::now()\<close> is an argument; the log
  calls have no effect on the state and are left out. An operation that reads through a
  \<^verbatim>\<open>const\<close> method returns only its result.
\<close>

section \<open>State\<close>

record NodeEntry =
  info :: NodeInfo
  session_id :: string
  last_heartbeat :: time_point
  missed_heartbeats :: u32
  cpu_usage :: float32
  memory_usage :: float32

record NodeTable =
  nt_nodes :: "(string, NodeEntry) umap"
  nt_max_nodes :: u32

definition NodeTable_new :: "u32 \<Rightarrow> NodeTable" where
  "NodeTable_new max_nodes = \<lparr>nt_nodes = [], nt_max_nodes = max_nodes\<rparr>"

section \<open>Operations\<close>

text \<open>The entry that \<^verbatim>\<open>register_node\<close> builds.\<close>

definition fresh_entry :: "NodeInfo \<Rightarrow> string \<Rightarrow> time_point \<Rightarrow> NodeEntry" where
  "fresh_entry i sid now =
     \<lparr>info = i, session_id = sid, last_heartbeat = now, missed_heartbeats = 0,
      cpu_usage = 0, memory_usage = 0\<rparr>"

definition register_node ::
    "NodeInfo \<Rightarrow> string \<Rightarrow> time_point \<Rightarrow> NodeTable \<Rightarrow> bool \<times> NodeTable" where
  "register_node i sid now t =
     (if length (nt_nodes t) \<ge> unat (nt_max_nodes t) then (False, t)
      else
        let (nodes', inserted) = um_try_emplace (node_id i) (fresh_entry i sid now) (nt_nodes t)
        in if \<not> inserted then (False, t\<lparr>nt_nodes := nodes'\<rparr>) else (True, t\<lparr>nt_nodes := nodes'\<rparr>))"

definition deregister_node :: "string \<Rightarrow> NodeTable \<Rightarrow> bool \<times> NodeTable" where
  "deregister_node nid t =
     (case um_find nid (nt_nodes t) of
        None \<Rightarrow> (False, t)
      | Some _ \<Rightarrow> (True, t\<lparr>nt_nodes := um_erase nid (nt_nodes t)\<rparr>))"

text \<open>The assignments through the iterator in \<^verbatim>\<open>update_heartbeat\<close>, in their order.\<close>

definition touch_entry :: "float32 \<Rightarrow> float32 \<Rightarrow> time_point \<Rightarrow> NodeEntry \<Rightarrow> NodeEntry" where
  "touch_entry cpu mem now e =
     e\<lparr>last_heartbeat := now, missed_heartbeats := 0, cpu_usage := cpu, memory_usage := mem\<rparr>"

definition update_heartbeat ::
    "string \<Rightarrow> float32 \<Rightarrow> float32 \<Rightarrow> u32 \<Rightarrow> time_point \<Rightarrow> NodeTable \<Rightarrow> bool \<times> NodeTable" where
  "update_heartbeat nid cpu mem active_connections now t =
     (case um_find nid (nt_nodes t) of
        None \<Rightarrow> (False, t)
      | Some _ \<Rightarrow> (True, t\<lparr>nt_nodes := um_modify nid (touch_entry cpu mem now) (nt_nodes t)\<rparr>))"

text \<open>The copying loop of \<^verbatim>\<open>get_all_nodes\<close> and of the first half of
  \<^verbatim>\<open>get_nodes_by_service\<close>: \<^verbatim>\<open>push_back\<close> in iteration order.\<close>

fun copy_entries :: "(string, NodeEntry) umap \<Rightarrow> NodeEntry list \<Rightarrow> NodeEntry list" where
  "copy_entries [] result = result"
| "copy_entries ((k, e) # rest) result = copy_entries rest (result @ [e])"

definition get_all_nodes :: "NodeTable \<Rightarrow> NodeEntry list" where
  "get_all_nodes t = copy_entries (nt_nodes t) []"

text \<open>The inner loop of \<^verbatim>\<open>get_nodes_by_service\<close>: \<^verbatim>\<open>std::find\<close> of each service in the
  filter, leaving at the first hit.\<close>

fun offers_service :: "string list \<Rightarrow> string list \<Rightarrow> bool" where
  "offers_service flt [] = False"
| "offers_service flt (svc # svcs) = (if svc \<in> set flt then True else offers_service flt svcs)"

fun filter_candidates :: "string list \<Rightarrow> NodeEntry list \<Rightarrow> NodeEntry list \<Rightarrow> NodeEntry list" where
  "filter_candidates flt [] result = result"
| "filter_candidates flt (e # rest) result =
     (if missed_heartbeats e > 0 then filter_candidates flt rest result
      else if flt = [] then filter_candidates flt rest (result @ [e])
      else if offers_service flt (services (info e)) then filter_candidates flt rest (result @ [e])
      else filter_candidates flt rest result)"

definition get_nodes_by_service :: "string list \<Rightarrow> NodeTable \<Rightarrow> NodeEntry list" where
  "get_nodes_by_service flt t = filter_candidates flt (copy_entries (nt_nodes t) []) []"

definition get_node :: "string \<Rightarrow> NodeTable \<Rightarrow> NodeEntry option" where
  "get_node nid t = um_find nid (nt_nodes t)"

text \<open>\<^verbatim>\<open>static_cast<uint32_t>\<close> of the size.\<close>

definition get_node_count :: "NodeTable \<Rightarrow> u32" where
  "get_node_count t = word_of_nat (length (nt_nodes t))"

definition has_node :: "string \<Rightarrow> NodeTable \<Rightarrow> bool" where
  "has_node nid t = um_contains nid (nt_nodes t)"

text \<open>
  The erase-while-iterating loop of \<^verbatim>\<open>remove_stale_nodes\<close>. The first argument is the threshold,
  the second the part of the map the iterator still has to visit; the result is what stays of that
  part and the vector of removed keys.
\<close>

fun remove_stale_loop ::
    "u32 \<Rightarrow> (string, NodeEntry) umap \<Rightarrow> string list \<Rightarrow> (string, NodeEntry) umap \<times> string list" where
  "remove_stale_loop m [] removed = ([], removed)"
| "remove_stale_loop m ((k, e) # rest) removed =
     (if missed_heartbeats e \<ge> m then remove_stale_loop m rest (removed @ [k])
      else let (kept, removed') = remove_stale_loop m rest removed in ((k, e) # kept, removed'))"

definition remove_stale_nodes :: "u32 \<Rightarrow> NodeTable \<Rightarrow> string list \<times> NodeTable" where
  "remove_stale_nodes max_missed t =
     (let (kept, removed) = remove_stale_loop max_missed (nt_nodes t) []
      in (removed, t\<lparr>nt_nodes := kept\<rparr>))"

text \<open>\<^verbatim>\<open>entry.missed_heartbeats++\<close> on a \<^verbatim>\<open>uint32_t\<close>.\<close>

definition bump_entry :: "NodeEntry \<Rightarrow> NodeEntry" where
  "bump_entry e = e\<lparr>missed_heartbeats := missed_heartbeats e + 1\<rparr>"

definition increment_all_missed_heartbeats :: "NodeTable \<Rightarrow> NodeTable" where
  "increment_all_missed_heartbeats t =
     t\<lparr>nt_nodes := map (\<lambda>(k, e). (k, bump_entry e)) (nt_nodes t)\<rparr>"

section \<open>The invariant\<close>

text \<open>
  Keys are distinct, every entry is stored under its own node id, and the table never holds more
  than \<^verbatim>\<open>max_nodes_\<close> entries.
\<close>

definition table_inv :: "NodeTable \<Rightarrow> bool" where
  "table_inv t \<longleftrightarrow>
     um_invar (nt_nodes t) \<and>
     (\<forall>(k, e) \<in> set (nt_nodes t). node_id (info e) = k) \<and>
     length (nt_nodes t) \<le> unat (nt_max_nodes t)"

definition lookup_node :: "NodeTable \<Rightarrow> string \<Rightarrow> NodeEntry option" where
  "lookup_node t nid = um_find nid (nt_nodes t)"

section \<open>Loops against reference definitions\<close>

lemma copy_entries_eq: "copy_entries m acc = acc @ map snd m"
  by (induction m acc rule: copy_entries.induct) auto

lemma offers_service_eq: "offers_service flt svcs \<longleftrightarrow> (\<exists>s \<in> set svcs. s \<in> set flt)"
  by (induction flt svcs rule: offers_service.induct) auto

text \<open>What discovery promises of one entry.\<close>

definition discoverable :: "string list \<Rightarrow> NodeEntry \<Rightarrow> bool" where
  "discoverable flt e \<longleftrightarrow>
     missed_heartbeats e = 0 \<and> (flt = [] \<or> (\<exists>s \<in> set (services (info e)). s \<in> set flt))"

lemma filter_candidates_eq: "filter_candidates flt es acc = acc @ filter (discoverable flt) es"
  by (induction flt es acc rule: filter_candidates.induct)
    (auto simp: discoverable_def offers_service_eq word_neq_0_conv)

lemma get_nodes_by_service_eq:
  "get_nodes_by_service flt t = filter (discoverable flt) (map snd (nt_nodes t))"
  by (simp add: get_nodes_by_service_def copy_entries_eq filter_candidates_eq)

lemma remove_stale_loop_eq:
  "remove_stale_loop m ms acc =
     (filter (\<lambda>(k, e). missed_heartbeats e < m) ms,
      acc @ map fst (filter (\<lambda>(k, e). m \<le> missed_heartbeats e) ms))"
  by (induction m ms acc rule: remove_stale_loop.induct) (auto split: prod.split)

lemma remove_stale_nodes_eq:
  "remove_stale_nodes m t =
     (map fst (filter (\<lambda>(k, e). m \<le> missed_heartbeats e) (nt_nodes t)),
      t\<lparr>nt_nodes := filter (\<lambda>(k, e). missed_heartbeats e < m) (nt_nodes t)\<rparr>)"
  by (simp add: remove_stale_nodes_def remove_stale_loop_eq)

lemma get_all_nodes_eq: "get_all_nodes t = map snd (nt_nodes t)"
  by (simp add: get_all_nodes_def copy_entries_eq)

section \<open>Every operation keeps the invariant\<close>

lemma table_inv_new [simp]: "table_inv (NodeTable_new n)"
  by (simp add: table_inv_def NodeTable_new_def um_invar_def)

lemma register_node_inv:
  assumes "table_inv t"
  shows "table_inv (snd (register_node i sid now t))"
proof (cases "length (nt_nodes t) \<ge> unat (nt_max_nodes t)")
  case True
  then show ?thesis using assms by (simp add: register_node_def)
next
  case False
  let ?r = "um_try_emplace (node_id i) (fresh_entry i sid now) (nt_nodes t)"
  have "um_invar (fst ?r)"
    using assms by (simp add: table_inv_def um.invar_emplace)
  moreover have "length (fst ?r) \<le> unat (nt_max_nodes t)"
    using False assms by (simp add: um.size_emplace table_inv_def)
  moreover have "\<forall>(k, e) \<in> set (fst ?r). node_id (info e) = k"
    using assms by (auto simp: table_inv_def um_try_emplace_def fresh_entry_def split: option.split)
  ultimately show ?thesis
    using False by (auto simp: register_node_def table_inv_def split: prod.split)
qed

lemma deregister_node_inv: "table_inv t \<Longrightarrow> table_inv (snd (deregister_node nid t))"
  by (auto simp: deregister_node_def table_inv_def um.invar_erase um.size_erase split: option.split)
    (auto simp: um_erase_def)

lemma update_heartbeat_inv: "table_inv t \<Longrightarrow> table_inv (snd (update_heartbeat nid cpu mem ac now t))"
  by (auto simp: update_heartbeat_def table_inv_def um.invar_modify um.size_modify split: option.split)
    (auto simp: um_modify_def touch_entry_def)

lemma remove_stale_nodes_inv: "table_inv t \<Longrightarrow> table_inv (snd (remove_stale_nodes m t))"
  by (auto simp: remove_stale_nodes_eq table_inv_def um_invar_def distinct_filter_keys
      intro: le_trans [OF length_filter_le])

lemma increment_inv: "table_inv t \<Longrightarrow> table_inv (increment_all_missed_heartbeats t)"
  by (auto simp: increment_all_missed_heartbeats_def table_inv_def um_invar_map_values bump_entry_def)

lemmas table_inv_intros =
  register_node_inv deregister_node_inv update_heartbeat_inv remove_stale_nodes_inv increment_inv

section \<open>What every operation does to the lookup function\<close>

lemma register_node_success:
  "fst (register_node i sid now t) \<longleftrightarrow>
     length (nt_nodes t) < unat (nt_max_nodes t) \<and> lookup_node t (node_id i) = None"
  using um.inserted_iff [of "node_id i" "fresh_entry i sid now" "nt_nodes t"]
  by (auto simp: register_node_def lookup_node_def split: prod.split)

lemma lookup_register [table_simps]:
  "lookup_node (snd (register_node i sid now t)) =
     (if fst (register_node i sid now t)
      then (lookup_node t)(node_id i \<mapsto> fresh_entry i sid now) else lookup_node t)"
  using um.find_emplace [of _ "node_id i" "fresh_entry i sid now" "nt_nodes t"]
    um.inserted_iff [of "node_id i" "fresh_entry i sid now" "nt_nodes t"]
  by (auto simp: register_node_def lookup_node_def fun_eq_iff split: prod.split)

lemma deregister_node_success: "fst (deregister_node nid t) \<longleftrightarrow> lookup_node t nid \<noteq> None"
  by (simp add: deregister_node_def lookup_node_def split: option.split)

lemma lookup_deregister [table_simps]:
  "lookup_node (snd (deregister_node nid t)) = (lookup_node t)(nid := None)"
  by (auto simp: deregister_node_def lookup_node_def fun_eq_iff um.find_erase split: option.split)

lemma update_heartbeat_success:
  "fst (update_heartbeat nid cpu mem ac now t) \<longleftrightarrow> lookup_node t nid \<noteq> None"
  by (simp add: update_heartbeat_def lookup_node_def split: option.split)

lemma lookup_update_heartbeat [table_simps]:
  "lookup_node (snd (update_heartbeat nid cpu mem ac now t)) =
     (lookup_node t)(nid := map_option (touch_entry cpu mem now) (lookup_node t nid))"
  by (auto simp: update_heartbeat_def lookup_node_def fun_eq_iff um.find_modify split: option.split)

lemma lookup_increment [table_simps]:
  "lookup_node (increment_all_missed_heartbeats t) k = map_option bump_entry (lookup_node t k)"
  by (simp add: increment_all_missed_heartbeats_def lookup_node_def um_find_def map_of_map_values)

lemma lookup_remove_stale [table_simps]:
  assumes "table_inv t"
  shows "lookup_node (snd (remove_stale_nodes m t)) k =
     (case lookup_node t k of None \<Rightarrow> None
      | Some e \<Rightarrow> if missed_heartbeats e < m then Some e else None)"
  using assms
  by (simp add: remove_stale_nodes_eq lookup_node_def um_find_def map_of_filter_distinct
      table_inv_def um_invar_def split: option.split)

lemma remove_stale_removed:
  assumes "table_inv t"
  shows "k \<in> set (fst (remove_stale_nodes m t)) \<longleftrightarrow>
     (\<exists>e. lookup_node t k = Some e \<and> m \<le> missed_heartbeats e)"
proof -
  have "um_invar (nt_nodes t)" using assms by (simp add: table_inv_def)
  from um_find_iff [OF this] show ?thesis
    by (force simp: remove_stale_nodes_eq lookup_node_def)
qed

lemma max_nodes_preserved [simp]:
  "nt_max_nodes (snd (register_node i sid now t)) = nt_max_nodes t"
  "nt_max_nodes (snd (deregister_node nid t)) = nt_max_nodes t"
  "nt_max_nodes (snd (update_heartbeat nid cpu mem ac now t)) = nt_max_nodes t"
  "nt_max_nodes (increment_all_missed_heartbeats t) = nt_max_nodes t"
  "nt_max_nodes (snd (remove_stale_nodes m t)) = nt_max_nodes t"
  by (simp_all add: register_node_def deregister_node_def update_heartbeat_def
      increment_all_missed_heartbeats_def remove_stale_nodes_eq Let_def split: option.split prod.split)

lemma set_discovered:
  assumes "table_inv t"
  shows "set (get_nodes_by_service flt t) = {e. discoverable flt e \<and> (\<exists>k. lookup_node t k = Some e)}"
proof -
  have "um_invar (nt_nodes t)" using assms by (simp add: table_inv_def)
  from um_find_iff [OF this] show ?thesis
    by (force simp: get_nodes_by_service_eq lookup_node_def)
qed

section \<open>Properties\<close>


text \<open>The erase-while-iterating loop of remove_stale_nodes visits every entry once: it returns
  the keys of exactly the entries whose counter has reached the threshold, keeps exactly the
  others in their order, and leaves the capacity alone.\<close>

lemma remove_stale_nodes_spec:
  "remove_stale_nodes m t =
     (map fst (filter (\<lambda>(k, e). m \<le> missed_heartbeats e) (nt_nodes t)),
      \<lparr>nt_nodes = filter (\<lambda>(k, e). missed_heartbeats e < m) (nt_nodes t),
       nt_max_nodes = nt_max_nodes t\<rparr>)"
  by (simp add: remove_stale_nodes_eq)

end
