(* ===== verification/Node_Directory.thy ===== *)
theory Node_Directory
  imports Node_Table
begin

text \<open>
  The node table as a service to its clients. \<open>table_op\<close> is the alphabet of the public methods
  of \<^verbatim>\<open>NodeTable\<close>; because each method holds the mutex for its whole body, every concurrent
  execution is a sequence of these operations. \<open>dir_exec\<close> is the abstract contract: a partial
  map from node ids to entries, with a capacity. The refinement lemmas show that the table
  implements it, results included, so nothing a client sees depends on the iteration order of the
  hash map. The locale \<open>node_directory\<close> is the interface the health checker and the registry
  service rely on; its lemmas are the lifetime laws of a registered node, and the interpretation
  discharges the interface for the table.
\<close>

section \<open>Operations and results\<close>

datatype table_op =
    RegisterOp NodeInfo string time_point
  | DeregisterOp string
  | HeartbeatOp string float32 float32 u32 time_point
  | IncrementOp
  | SweepOp u32
  | GetAllOp
  | DiscoverOp "string list"
  | GetNodeOp string
  | CountOp
  | HasNodeOp string

datatype op_result =
    RBool bool
  | RKeys "string set"
  | REntries "NodeEntry set"
  | RNode "NodeEntry option"
  | RCount u32
  | RUnit

fun table_exec :: "table_op \<Rightarrow> NodeTable \<Rightarrow> op_result \<times> NodeTable" where
  "table_exec (RegisterOp i sid now) t = (let (b, t') = register_node i sid now t in (RBool b, t'))"
| "table_exec (DeregisterOp nid) t = (let (b, t') = deregister_node nid t in (RBool b, t'))"
| "table_exec (HeartbeatOp nid cpu mem ac now) t =
     (let (b, t') = update_heartbeat nid cpu mem ac now t in (RBool b, t'))"
| "table_exec IncrementOp t = (RUnit, increment_all_missed_heartbeats t)"
| "table_exec (SweepOp m) t = (let (ks, t') = remove_stale_nodes m t in (RKeys (set ks), t'))"
| "table_exec GetAllOp t = (REntries (set (get_all_nodes t)), t)"
| "table_exec (DiscoverOp flt) t = (REntries (set (get_nodes_by_service flt t)), t)"
| "table_exec (GetNodeOp nid) t = (RNode (get_node nid t), t)"
| "table_exec CountOp t = (RCount (get_node_count t), t)"
| "table_exec (HasNodeOp nid) t = (RBool (has_node nid t), t)"

fun table_run :: "table_op list \<Rightarrow> NodeTable \<Rightarrow> op_result list \<times> NodeTable" where
  "table_run [] t = ([], t)"
| "table_run (op # ops) t =
     (let (r, t') = table_exec op t; (rs, t'') = table_run ops t' in (r # rs, t''))"

section \<open>The abstract directory\<close>

type_synonym directory = "string \<rightharpoonup> NodeEntry"

fun dir_exec :: "nat \<Rightarrow> table_op \<Rightarrow> directory \<Rightarrow> op_result \<times> directory" where
  "dir_exec cap (RegisterOp i sid now) d =
     (if card (dom d) < cap \<and> d (node_id i) = None
      then (RBool True, d(node_id i \<mapsto> fresh_entry i sid now)) else (RBool False, d))"
| "dir_exec cap (DeregisterOp nid) d = (RBool (nid \<in> dom d), d(nid := None))"
| "dir_exec cap (HeartbeatOp nid cpu mem ac now) d =
     (RBool (nid \<in> dom d), d(nid := map_option (touch_entry cpu mem now) (d nid)))"
| "dir_exec cap IncrementOp d = (RUnit, \<lambda>k. map_option bump_entry (d k))"
| "dir_exec cap (SweepOp m) d =
     (RKeys {k. \<exists>e. d k = Some e \<and> m \<le> missed_heartbeats e},
      \<lambda>k. case d k of None \<Rightarrow> None | Some e \<Rightarrow> if missed_heartbeats e < m then Some e else None)"
| "dir_exec cap GetAllOp d = (REntries (ran d), d)"
| "dir_exec cap (DiscoverOp flt) d = (REntries {e \<in> ran d. discoverable flt e}, d)"
| "dir_exec cap (GetNodeOp nid) d = (RNode (d nid), d)"
| "dir_exec cap CountOp d = (RCount (word_of_nat (card (dom d))), d)"
| "dir_exec cap (HasNodeOp nid) d = (RBool (nid \<in> dom d), d)"

fun dir_run :: "nat \<Rightarrow> table_op list \<Rightarrow> directory \<Rightarrow> op_result list \<times> directory" where
  "dir_run cap [] d = ([], d)"
| "dir_run cap (op # ops) d =
     (let (r, d') = dir_exec cap op d; (rs, d'') = dir_run cap ops d' in (r # rs, d''))"

section \<open>Refinement\<close>

lemma table_exec_inv: "table_inv t \<Longrightarrow> table_inv (snd (table_exec op t))"
  by (cases op) (auto simp: split_beta Let_def intro: table_inv_intros)

lemma table_exec_max_nodes [simp]: "nt_max_nodes (snd (table_exec op t)) = nt_max_nodes t"
  by (cases op) (auto simp: split_beta Let_def)

lemma dom_lookup_node: "dom (lookup_node t) = fst ` set (nt_nodes t)"
  using um_find_dom [of "nt_nodes t"] by (simp add: lookup_node_def [abs_def])

lemma card_dom_lookup_node: "table_inv t \<Longrightarrow> card (dom (lookup_node t)) = length (nt_nodes t)"
  using um.size_dom [of "nt_nodes t"] by (simp add: lookup_node_def [abs_def] table_inv_def)

lemma ran_lookup_node: "table_inv t \<Longrightarrow> ran (lookup_node t) = set (get_all_nodes t)"
  by (auto simp: ran_def lookup_node_def um_find_iff table_inv_def get_all_nodes_eq image_iff)
    (metis snd_conv)

lemma table_exec_refines:
  assumes "table_inv t"
  shows "fst (table_exec op t) = fst (dir_exec (unat (nt_max_nodes t)) op (lookup_node t))"
    and "lookup_node (snd (table_exec op t)) = snd (dir_exec (unat (nt_max_nodes t)) op (lookup_node t))"
proof -
  note card = card_dom_lookup_node [OF assms]
  show "fst (table_exec op t) = fst (dir_exec (unat (nt_max_nodes t)) op (lookup_node t))"
    using remove_stale_removed [OF assms] set_discovered [OF assms]
    by (cases op)
      (auto simp: split_beta Let_def card register_node_success deregister_node_success
        update_heartbeat_success ran_lookup_node [OF assms, symmetric] ran_def get_node_def
        get_node_count_def has_node_def um_contains_def lookup_node_def domIff)
  show "lookup_node (snd (table_exec op t)) = snd (dir_exec (unat (nt_max_nodes t)) op (lookup_node t))"
    using assms
    by (cases op)
      (auto simp: split_beta Let_def card register_node_success table_simps fun_eq_iff)
qed

lemma table_run_inv: "table_inv t \<Longrightarrow> table_inv (snd (table_run ops t))"
  by (induction ops arbitrary: t) (auto simp: split_beta Let_def intro: table_exec_inv)

lemma table_run_refines:
  assumes "table_inv t"
  shows "fst (table_run ops t) = fst (dir_run (unat (nt_max_nodes t)) ops (lookup_node t)) \<and>
         lookup_node (snd (table_run ops t)) = snd (dir_run (unat (nt_max_nodes t)) ops (lookup_node t))"
  using assms
proof (induction ops arbitrary: t)
  case Nil
  then show ?case by simp
next
  case (Cons op ops)
  note step = table_exec_refines [OF Cons.prems, of op]
  have "table_inv (snd (table_exec op t))" using Cons.prems by (rule table_exec_inv)
  from Cons.IH [OF this] step show ?case
    by (simp add: split_beta Let_def)
qed

section \<open>The interface and the lifetime of a node\<close>

definition increments :: "table_op list \<Rightarrow> nat" where
  "increments ops = length (filter (\<lambda>op. op = IncrementOp) ops)"

lemma increments_simps [simp]:
  "increments [] = 0"
  "increments (op # ops) = (if op = IncrementOp then Suc (increments ops) else increments ops)"
  "increments (xs @ ys) = increments xs + increments ys"
  by (simp_all add: increments_def)

definition heartbeats_of :: "string \<Rightarrow> table_op list \<Rightarrow> bool" where
  "heartbeats_of k ops \<longleftrightarrow> (\<exists>cpu mem ac now. HeartbeatOp k cpu mem ac now \<in> set ops)"

definition registers :: "string \<Rightarrow> table_op list \<Rightarrow> bool" where
  "registers k ops \<longleftrightarrow> (\<exists>i sid now. RegisterOp i sid now \<in> set ops \<and> node_id i = k)"

lemma registers_simps [simp]:
  "registers k [] = False"
  "registers k (RegisterOp i sid now # ops) \<longleftrightarrow> node_id i = k \<or> registers k ops"
  "registers k (DeregisterOp nid # ops) = registers k ops"
  "registers k (HeartbeatOp nid cpu mem ac now # ops) = registers k ops"
  "registers k (IncrementOp # ops) = registers k ops"
  "registers k (SweepOp m # ops) = registers k ops"
  "registers k (GetAllOp # ops) = registers k ops"
  "registers k (DiscoverOp flt # ops) = registers k ops"
  "registers k (GetNodeOp nid # ops) = registers k ops"
  "registers k (CountOp # ops) = registers k ops"
  "registers k (HasNodeOp nid # ops) = registers k ops"
  by (auto simp: registers_def)

lemma registers_append [simp]: "registers k (xs @ ys) \<longleftrightarrow> registers k xs \<or> registers k ys"
  unfolding registers_def set_append by blast

lemma heartbeats_of_Cons:
  "heartbeats_of k (op # ops) \<longleftrightarrow>
     (\<exists>cpu mem ac now. op = HeartbeatOp k cpu mem ac now) \<or> heartbeats_of k ops"
  by (auto simp: heartbeats_of_def)

text \<open>
  The life of one registered node, as an observer of the operations counts it: the number of
  increments since the last heartbeat, and None from the moment the node is deregistered or a
  sweep finds its count at or above the threshold.
\<close>

fun track :: "string \<Rightarrow> nat \<Rightarrow> table_op list \<Rightarrow> nat option" where
  "track k c [] = Some c"
| "track k c (IncrementOp # ops) = track k (Suc c) ops"
| "track k c (SweepOp m # ops) = (if unat m \<le> c then None else track k c ops)"
| "track k c (DeregisterOp k' # ops) = (if k' = k then None else track k c ops)"
| "track k c (HeartbeatOp k' cpu mem ac now # ops) = track k (if k' = k then 0 else c) ops"
| "track k c (op # ops) = track k c ops"

lemma track_append:
  "track k c (xs @ ys) = (case track k c xs of None \<Rightarrow> None | Some c' \<Rightarrow> track k c' ys)"
  by (induction k c xs rule: track.induct) auto

lemma track_bound: "track k c ops = Some c' \<Longrightarrow> c' \<le> c + increments ops"
  by (induction k c ops rule: track.induct) (auto split: if_splits)

lemma track_silent:
  "\<not> heartbeats_of k ops \<Longrightarrow> track k c ops = Some c' \<Longrightarrow> c' = c + increments ops"
  by (induction k c ops rule: track.induct) (auto simp: heartbeats_of_Cons split: if_splits)

locale node_directory =
  fixes invar :: "'t \<Rightarrow> bool"
    and lookup :: "'t \<Rightarrow> string \<Rightarrow> NodeEntry option"
    and exec :: "table_op \<Rightarrow> 't \<Rightarrow> 't"
  assumes exec_invar: "invar t \<Longrightarrow> invar (exec op t)"
    and lookup_reg_other:
      "invar t \<Longrightarrow> k \<noteq> node_id i \<Longrightarrow> lookup (exec (RegisterOp i sid now) t) k = lookup t k"
    and lookup_reg_present:
      "invar t \<Longrightarrow> lookup t (node_id i) = Some e \<Longrightarrow>
       lookup (exec (RegisterOp i sid now) t) (node_id i) = Some e"
    and lookup_dereg:
      "invar t \<Longrightarrow> lookup (exec (DeregisterOp nid) t) k = (if k = nid then None else lookup t k)"
    and lookup_hb:
      "invar t \<Longrightarrow> lookup (exec (HeartbeatOp nid cpu mem ac now) t) k =
         (if k = nid then map_option (touch_entry cpu mem now) (lookup t k) else lookup t k)"
    and lookup_inc: "invar t \<Longrightarrow> lookup (exec IncrementOp t) k = map_option bump_entry (lookup t k)"
    and lookup_sweep:
      "invar t \<Longrightarrow> lookup (exec (SweepOp m) t) k =
         (case lookup t k of None \<Rightarrow> None
          | Some e \<Rightarrow> if missed_heartbeats e < m then Some e else None)"
    and exec_query:
      "exec GetAllOp t = t" "exec (DiscoverOp flt) t = t" "exec (GetNodeOp nid) t = t"
      "exec CountOp t = t" "exec (HasNodeOp nid) t = t"
begin

lemmas lookup_exec = lookup_dereg lookup_hb lookup_inc lookup_sweep exec_query

lemma run_invar: "invar t \<Longrightarrow> invar (fold exec ops t)"
  by (induction ops arbitrary: t) (simp_all add: exec_invar)

lemma lookup_reg_some:
  "invar t \<Longrightarrow> lookup t k = Some e \<Longrightarrow> lookup (exec (RegisterOp i sid now) t) k = Some e"
  by (cases "k = node_id i") (simp_all add: lookup_reg_present lookup_reg_other)

text \<open>A node that is absent stays absent until it registers.\<close>

lemma absent_step:
  "invar t \<Longrightarrow> lookup t k = None \<Longrightarrow> \<not> registers k [op] \<Longrightarrow> lookup (exec op t) k = None"
  by (cases op) (auto simp: lookup_exec lookup_reg_other)

lemma absent_stays:
  "invar t \<Longrightarrow> lookup t k = None \<Longrightarrow> \<not> registers k ops \<Longrightarrow> lookup (fold exec ops t) k = None"
proof (induction ops arbitrary: t)
  case Nil
  then show ?case by simp
next
  case (Cons op ops)
  have "\<not> registers k [op]" and "\<not> registers k ops"
    using Cons.prems(3) by (auto simp: registers_def)
  with Cons show ?case by (simp add: absent_step exec_invar)
qed

text \<open>
  One step of a registered node agrees with one step of the observer. The counter of the entry is
  the 32-bit image of the observer's count.
\<close>

lemma present_step:
  assumes "invar t" and "lookup t k = Some e" and "missed_heartbeats e = word_of_nat c"
    and "c < 2 ^ 32"
  shows "map_option missed_heartbeats (lookup (exec op t) k) = map_option word_of_nat (track k c [op])"
  using assms
  by (cases op)
    (auto simp: lookup_exec touch_entry_def bump_entry_def word_le_of_nat not_le [symmetric]
      lookup_reg_some split: option.splits if_splits)

lemma lifetime:
  assumes "invar t" and "lookup t k = Some e" and "missed_heartbeats e = word_of_nat c"
    and "c + increments ops < 2 ^ 32" and "\<not> registers k ops"
  shows "map_option missed_heartbeats (lookup (fold exec ops t) k) =
         map_option word_of_nat (track k c ops)"
  using assms
proof (induction ops arbitrary: t e c)
  case Nil
  then show ?case by simp
next
  case (Cons op ops)
  have inv': "invar (exec op t)" using Cons.prems(1) by (rule exec_invar)
  have step: "map_option missed_heartbeats (lookup (exec op t) k) =
      map_option word_of_nat (track k c [op])"
    using Cons.prems by (intro present_step) auto
  have nreg: "\<not> registers k ops" using Cons.prems(5) by (auto simp: registers_def)
  have split: "track k c (op # ops) = (case track k c [op] of None \<Rightarrow> None | Some c' \<Rightarrow> track k c' ops)"
    using track_append [of k c "[op]" ops] by simp
  show ?case
  proof (cases "track k c [op]")
    case None
    with step have "lookup (exec op t) k = None" by simp
    with inv' nreg None split show ?thesis by (simp add: absent_stays)
  next
    case (Some c')
    with step obtain e' where e': "lookup (exec op t) k = Some e'"
        "missed_heartbeats e' = word_of_nat c'"
      by auto
    have "c' + increments ops \<le> c + increments (op # ops)"
      using track_bound [OF Some] by (simp split: if_splits)
    then have "c' + increments ops < 2 ^ 32" using Cons.prems(4) by linarith
    from Cons.IH [OF inv' e' this nreg] Some split show ?thesis by simp
  qed
qed

text \<open>
  A node whose increments since its last heartbeat stay below the threshold of every sweep, and
  that nobody deregisters, is still there, under its registration data.
\<close>

lemma present_keeps:
  assumes "invar t" and "lookup t k = Some e" and "op \<noteq> DeregisterOp k"
    and "\<And>m'. op = SweepOp m' \<Longrightarrow> m \<le> m'" and "unat (missed_heartbeats e) + increments [op] < unat m"
  shows "\<exists>e'. lookup (exec op t) k = Some e' \<and> info e' = info e \<and> session_id e' = session_id e \<and>
           unat (missed_heartbeats e') \<le> unat (missed_heartbeats e) + increments [op]"
proof -
  have "missed_heartbeats e < m" using assms(5) by (simp add: word_less_nat_alt split: if_splits)
  with assms show ?thesis
    by (cases op)
      (auto simp: lookup_exec touch_entry_def bump_entry_def unat_plus_one_u32 lookup_reg_some
        intro: less_le_trans split: if_splits)
qed

lemma stays_registered:
  assumes "invar t" and "lookup t k = Some e" and "DeregisterOp k \<notin> set ops"
    and "\<And>m'. SweepOp m' \<in> set ops \<Longrightarrow> m \<le> m'"
    and "unat (missed_heartbeats e) + increments ops < unat m"
  shows "\<exists>e'. lookup (fold exec ops t) k = Some e' \<and> info e' = info e \<and> session_id e' = session_id e"
  using assms
proof (induction ops arbitrary: t e)
  case Nil
  then show ?case by simp
next
  case (Cons op ops)
  have "unat (missed_heartbeats e) + increments [op] < unat m"
    using Cons.prems(5) by (simp split: if_splits)
  with Cons.prems obtain e' where e': "lookup (exec op t) k = Some e'" "info e' = info e"
      "session_id e' = session_id e"
      "unat (missed_heartbeats e') \<le> unat (missed_heartbeats e) + increments [op]"
    using present_keeps [of t k e op m] by auto
  have "unat (missed_heartbeats e') + increments ops < unat m"
    using e'(4) Cons.prems(5) by (simp split: if_splits)
  with e' Cons.prems show ?case
    using Cons.IH [of "exec op t" e'] by (auto simp: exec_invar)
qed

text \<open>
  A registered node that is silent for as many increments as the threshold is gone after the next
  sweep, whatever other clients do in between, and stays gone until it registers again.
\<close>

lemma silent_evicted:
  assumes "invar t" and "\<not> heartbeats_of k pre" and "unat m \<le> increments pre"
    and "increments pre < 2 ^ 32 - unat (case lookup t k of None \<Rightarrow> 0 | Some e \<Rightarrow> missed_heartbeats e)"
    and "\<not> registers k (pre @ post)"
  shows "lookup (fold exec (pre @ SweepOp m # post) t) k = None"
proof (cases "lookup t k")
  case None
  have "\<not> registers k (pre @ SweepOp m # post)" using assms(5) by simp
  from absent_stays [OF assms(1) None this] show ?thesis .
next
  case (Some e)
  let ?c = "unat (missed_heartbeats e)"
  have bound: "?c + increments pre < 2 ^ 32" using assms(4) Some by simp
  have nreg: "\<not> registers k pre" using assms(5) by simp
  have inv1: "invar (fold exec pre t)" using assms(1) by (rule run_invar)
  have life: "map_option missed_heartbeats (lookup (fold exec pre t) k) =
      map_option word_of_nat (track k ?c pre)"
    using lifetime [OF assms(1) Some _ bound nreg] by simp
  have "lookup (exec (SweepOp m) (fold exec pre t)) k = None"
  proof (cases "track k ?c pre")
    case None
    with life inv1 show ?thesis by (simp add: lookup_sweep)
  next
    case (Some c')
    with assms(2) have c': "c' = ?c + increments pre" by (rule track_silent)
    obtain e' where e': "lookup (fold exec pre t) k = Some e'" "missed_heartbeats e' = word_of_nat c'"
      using life Some by auto
    have "m \<le> missed_heartbeats e'"
      using c' bound assms(3) e'(2) word_le_of_nat [of c' m] by simp
    with e'(1) inv1 show ?thesis by (simp add: lookup_sweep)
  qed
  with inv1 assms(5) show ?thesis
    by (simp add: absent_stays exec_invar)
qed

end

definition table_step :: "table_op \<Rightarrow> NodeTable \<Rightarrow> NodeTable" where
  "table_step op t = snd (table_exec op t)"

lemma snd_table_run: "snd (table_run ops t) = fold table_step ops t"
  by (induction ops arbitrary: t) (simp_all add: table_step_def split_beta Let_def)

lemma lookup_table_step:
  "table_inv t \<Longrightarrow> lookup_node (table_step op t) = snd (dir_exec (unat (nt_max_nodes t)) op (lookup_node t))"
  by (simp add: table_step_def table_exec_refines)

interpretation nt: node_directory table_inv lookup_node table_step
proof (unfold_locales, goal_cases)
  case (1 t op)
  then show ?case by (simp add: table_step_def table_exec_inv)
qed (auto simp: lookup_table_step, simp_all add: table_step_def)

section \<open>Properties\<close>

text \<open>C1: Started empty with capacity n, the node table answers every sequence of calls of its ten
  public methods exactly as the abstract directory does: the same results call by call (whether a
  registration, removal or heartbeat succeeded, which ids a sweep removed, what discovery and the
  queries return, the 32-bit count), the same final contents, and the representation invariant
  (distinct keys, entries filed under their own id, size within capacity) at the end.\<close>

theorem node_table_refines_directory:
  "fst (table_run ops (NodeTable_new n)) = fst (dir_run (unat n) ops Map.empty) \<and>
   lookup_node (snd (table_run ops (NodeTable_new n))) = snd (dir_run (unat n) ops Map.empty) \<and>
   table_inv (snd (table_run ops (NodeTable_new n)))"
proof -
  have "lookup_node (NodeTable_new n) = Map.empty" and "nt_max_nodes (NodeTable_new n) = n"
    by (simp_all add: NodeTable_new_def lookup_node_def um_find_def fun_eq_iff)
  then show ?thesis
    using table_run_refines [OF table_inv_new, of ops n] table_run_inv [OF table_inv_new, of ops n]
    by simp
qed


definition demo_node :: "string \<Rightarrow> NodeInfo" where
  "demo_node k =
     \<lparr>node_id = k, ip_address = ''127.0.0.1'', port = 50052, services = [''lidar''],
      startup_timestamp = 0\<rparr>"

definition demo_table :: NodeTable where
  "demo_table = snd (table_run [RegisterOp (demo_node ''a'') ''a_7'' 0] (NodeTable_new 4))"

definition demo_ops :: "table_op list" where
  "demo_ops = [IncrementOp, SweepOp 3, IncrementOp, HeartbeatOp ''a'' 15 45 2 9, IncrementOp, SweepOp 3]"

lemma demo_table_inv: "table_inv demo_table"
  unfolding demo_table_def by (rule table_run_inv) simp


end
