(* ===== verification/Registry_Service.thy ===== *)
theory Registry_Service
  imports Node_Directory
begin

text \<open>
  \<^verbatim>\<open>src/registry/registry_service.h\<close> and \<^verbatim>\<open>registry_service.cpp\<close>: the four RPC handlers
  of the registry and its shutdown flag. A handler takes the request, the response object gRPC
  hands it (which it fills field by field), and the service; it returns the status, the filled
  response and the new service. \<^verbatim>\<open>std::rand()\<close> and the clock are arguments.
\<close>

record RegistryServiceImpl =
  rs_node_table :: NodeTable
  rs_is_running :: bool

definition RegistryServiceImpl_new :: "u32 \<Rightarrow> RegistryServiceImpl" where
  "RegistryServiceImpl_new max_nodes =
     \<lparr>rs_node_table = NodeTable_new max_nodes, rs_is_running = True\<rparr>"

section \<open>Handlers\<close>

text \<open>\<^verbatim>\<open>info.node_id() + "_" + std::to_string(std::rand())\<close>\<close>

definition make_session_id :: "NodeInfo \<Rightarrow> int \<Rightarrow> string" where
  "make_session_id i rnd = node_id i @ ''_'' @ to_string rnd"

definition Register ::
    "RegisterRequest \<Rightarrow> RegisterResponse \<Rightarrow> int \<Rightarrow> time_point \<Rightarrow> RegistryServiceImpl
     \<Rightarrow> Status \<times> RegisterResponse \<times> RegistryServiceImpl" where
  "Register request response rnd now s =
     (if \<not> rs_is_running s then
        (mk_status SC_UNAVAILABLE ''Service is shutting down'', response, s)
      else case rq_node_info request of
        None \<Rightarrow>
          (mk_status SC_INVALID_ARGUMENT ''Missing node_info'',
           response\<lparr>rr_success := False, rr_error_message := ''Missing node_info field''\<rparr>, s)
      | Some i \<Rightarrow>
          if node_id i = [] then
            (mk_status SC_INVALID_ARGUMENT ''Empty node_id'',
             response\<lparr>rr_success := False, rr_error_message := ''node_id cannot be empty''\<rparr>, s)
          else
            let sid = make_session_id i rnd;
                (registered, t) = register_node i sid now (rs_node_table s);
                s' = s\<lparr>rs_node_table := t\<rparr>
            in if \<not> registered then
                 (mk_status SC_ALREADY_EXISTS ''Duplicate node'',
                  response\<lparr>rr_success := False,
                    rr_error_message := ''Node already registered or table full''\<rparr>, s')
               else
                 (Status_OK,
                  response\<lparr>rr_success := True, rr_session_id := sid,
                    rr_heartbeat_interval := 1000, rr_error_message := ''''\<rparr>, s'))"

definition Heartbeat ::
    "HeartbeatRequest \<Rightarrow> HeartbeatResponse \<Rightarrow> time_point \<Rightarrow> RegistryServiceImpl
     \<Rightarrow> Status \<times> HeartbeatResponse \<times> RegistryServiceImpl" where
  "Heartbeat request response now s =
     (if hq_node_id request = [] then
        (mk_status SC_INVALID_ARGUMENT ''Empty node_id'', response\<lparr>hr_success := False\<rparr>, s)
      else
        let (found, t) = update_heartbeat (hq_node_id request) (hq_cpu_usage request)
                           (hq_memory_usage request) (hq_active_connections request) now
                           (rs_node_table s);
            s' = s\<lparr>rs_node_table := t\<rparr>
        in if \<not> found then
             (mk_status SC_NOT_FOUND ''Node not registered'',
              response\<lparr>hr_success := False, hr_missed_heartbeats := 0, hr_should_reconnect := True\<rparr>, s')
           else
             (Status_OK,
              response\<lparr>hr_success := True, hr_missed_heartbeats := 0, hr_should_reconnect := False\<rparr>, s'))"

definition Deregister ::
    "DeregisterRequest \<Rightarrow> DeregisterResponse \<Rightarrow> RegistryServiceImpl
     \<Rightarrow> Status \<times> DeregisterResponse \<times> RegistryServiceImpl" where
  "Deregister request response s =
     (let (removed, t) = deregister_node (dq_node_id request) (rs_node_table s);
          s' = s\<lparr>rs_node_table := t\<rparr>
      in if \<not> removed then
           (mk_status SC_NOT_FOUND ''Node not found'',
            response\<lparr>dr_success := False, dr_message := ''Node not found''\<rparr>, s')
         else
           (Status_OK,
            response\<lparr>dr_success := True, dr_message := ''Node deregistered gracefully''\<rparr>, s'))"

text \<open>The two copying loops of \<^verbatim>\<open>Discover\<close>: the filter out of the request, the node infos
  into the response.\<close>

fun copy_filter :: "string list \<Rightarrow> string list \<Rightarrow> string list" where
  "copy_filter [] acc = acc"
| "copy_filter (s # ss) acc = copy_filter ss (acc @ [s])"

fun add_nodes :: "NodeEntry list \<Rightarrow> DiscoverResponse \<Rightarrow> DiscoverResponse" where
  "add_nodes [] response = response"
| "add_nodes (e # es) response =
     add_nodes es (response\<lparr>dresp_nodes := dresp_nodes response @ [info e]\<rparr>)"

definition Discover ::
    "DiscoverRequest \<Rightarrow> DiscoverResponse \<Rightarrow> RegistryServiceImpl \<Rightarrow> Status \<times> DiscoverResponse" where
  "Discover request response s =
     (let flt = copy_filter (service_filter request) [];
          nodes = get_nodes_by_service flt (rs_node_table s)
      in (Status_OK, add_nodes nodes response))"

definition Shutdown :: "RegistryServiceImpl \<Rightarrow> RegistryServiceImpl" where
  "Shutdown s =
     (let (was, now_running) = atomic_exchange (rs_is_running s) False
      in if \<not> was then s\<lparr>rs_is_running := now_running\<rparr> else s\<lparr>rs_is_running := now_running\<rparr>)"

definition is_running :: "RegistryServiceImpl \<Rightarrow> bool" where
  "is_running s = rs_is_running s"

section \<open>Loops\<close>

lemma copy_filter_eq: "copy_filter ss acc = acc @ ss"
  by (induction ss acc rule: copy_filter.induct) auto

lemma add_nodes_eq: "dresp_nodes (add_nodes es r) = dresp_nodes r @ map info es"
  by (induction es r rule: add_nodes.induct) auto

lemma Discover_eq:
  "Discover req resp s =
     (Status_OK, add_nodes (get_nodes_by_service (service_filter req) (rs_node_table s)) resp)"
  by (simp add: Discover_def copy_filter_eq)

section \<open>Register in two phases\<close>

text \<open>
  \<^verbatim>\<open>Register\<close> reads the running flag once and only later takes the table's lock, so a
  concurrent \<^verbatim>\<open>Shutdown\<close> can fall between the two. \<open>Register_check\<close> is the part before the
  table call: an early return, or the node info the call goes on with. \<open>Register_commit\<close> is
  the rest.
\<close>

definition Register_check ::
    "RegisterRequest \<Rightarrow> RegisterResponse \<Rightarrow> RegistryServiceImpl \<Rightarrow> (Status \<times> RegisterResponse) + NodeInfo" where
  "Register_check request response s =
     (if \<not> rs_is_running s then
        Inl (mk_status SC_UNAVAILABLE ''Service is shutting down'', response)
      else case rq_node_info request of
        None \<Rightarrow>
          Inl (mk_status SC_INVALID_ARGUMENT ''Missing node_info'',
           response\<lparr>rr_success := False, rr_error_message := ''Missing node_info field''\<rparr>)
      | Some i \<Rightarrow>
          if node_id i = [] then
            Inl (mk_status SC_INVALID_ARGUMENT ''Empty node_id'',
             response\<lparr>rr_success := False, rr_error_message := ''node_id cannot be empty''\<rparr>)
          else Inr i)"

definition Register_commit ::
    "NodeInfo \<Rightarrow> RegisterResponse \<Rightarrow> int \<Rightarrow> time_point \<Rightarrow> RegistryServiceImpl
     \<Rightarrow> Status \<times> RegisterResponse \<times> RegistryServiceImpl" where
  "Register_commit i response rnd now s =
     (let sid = make_session_id i rnd;
          (registered, t) = register_node i sid now (rs_node_table s);
          s' = s\<lparr>rs_node_table := t\<rparr>
      in if \<not> registered then
           (mk_status SC_ALREADY_EXISTS ''Duplicate node'',
            response\<lparr>rr_success := False,
              rr_error_message := ''Node already registered or table full''\<rparr>, s')
         else
           (Status_OK,
            response\<lparr>rr_success := True, rr_session_id := sid,
              rr_heartbeat_interval := 1000, rr_error_message := ''''\<rparr>, s'))"

lemma Register_phases:
  "Register req resp rnd now s =
     (case Register_check req resp s of
        Inl (st, r) \<Rightarrow> (st, r, s)
      | Inr i \<Rightarrow> Register_commit i resp rnd now s)"
  by (simp add: Register_def Register_check_def Register_commit_def split: option.split)

section \<open>Effect of the handlers on the table\<close>

definition service_inv :: "RegistryServiceImpl \<Rightarrow> bool" where
  "service_inv s \<longleftrightarrow>
     table_inv (rs_node_table s) \<and> lookup_node (rs_node_table s) [] = None"

abbreviation status_of :: "Status \<times> 'r \<times> 's \<Rightarrow> Status" where
  "status_of x \<equiv> fst x"

abbreviation response_of :: "Status \<times> 'r \<times> 's \<Rightarrow> 'r" where
  "response_of x \<equiv> fst (snd x)"

abbreviation service_of :: "Status \<times> 'r \<times> 's \<Rightarrow> 's" where
  "service_of x \<equiv> snd (snd x)"

lemma Register_commit_table:
  "rs_node_table (service_of (Register_commit i resp rnd now s)) =
     table_step (RegisterOp i (make_session_id i rnd) now) (rs_node_table s)"
  by (simp add: Register_commit_def table_step_def Let_def split_beta)

lemma Register_table:
  "rs_node_table (service_of (Register req resp rnd now s)) =
     (case Register_check req resp s of
        Inl _ \<Rightarrow> rs_node_table s
      | Inr i \<Rightarrow> table_step (RegisterOp i (make_session_id i rnd) now) (rs_node_table s))"
  by (simp add: Register_phases Register_commit_table split_beta split: sum.split)

lemma Register_check_Inr:
  "Register_check req resp s = Inr i \<longleftrightarrow>
     rs_is_running s \<and> rq_node_info req = Some i \<and> node_id i \<noteq> []"
  by (auto simp: Register_check_def split: option.splits if_splits)

lemma Heartbeat_table:
  "rs_node_table (service_of (Heartbeat req resp now s)) =
     (if hq_node_id req = [] then rs_node_table s
      else table_step (HeartbeatOp (hq_node_id req) (hq_cpu_usage req) (hq_memory_usage req)
             (hq_active_connections req) now) (rs_node_table s))"
  by (simp add: Heartbeat_def table_step_def Let_def split_beta)

lemma Deregister_table:
  "rs_node_table (service_of (Deregister req resp s)) =
     table_step (DeregisterOp (dq_node_id req)) (rs_node_table s)"
  by (simp add: Deregister_def table_step_def Let_def split_beta)

lemma handlers_keep_running [simp]:
  "rs_is_running (service_of (Register req1 resp1 rnd now s)) = rs_is_running s"
  "rs_is_running (service_of (Register_commit i resp1 rnd now s)) = rs_is_running s"
  "rs_is_running (service_of (Heartbeat req2 resp2 now s)) = rs_is_running s"
  "rs_is_running (service_of (Deregister req3 resp3 s)) = rs_is_running s"
  by (simp_all add: Register_def Register_commit_def Heartbeat_def Deregister_def Let_def split_beta
      split: option.split)

lemma Shutdown_eq: "Shutdown s = s\<lparr>rs_is_running := False\<rparr>"
  by (simp add: Shutdown_def atomic_exchange_def)

lemma service_inv_new [simp]: "service_inv (RegistryServiceImpl_new n)"
  by (simp add: service_inv_def RegistryServiceImpl_new_def)
    (simp add: NodeTable_new_def lookup_node_def um_find_def)

lemma service_inv_step:
  assumes "service_inv s" and "\<not> registers [] [op]"
  shows "service_inv (s\<lparr>rs_node_table := table_step op (rs_node_table s)\<rparr>)"
  using assms nt.absent_step [of "rs_node_table s" "[]" op]
  by (simp add: service_inv_def nt.exec_invar)

text \<open>The status of a heartbeat tells whether the node was registered.\<close>

lemma Heartbeat_status:
  "hq_node_id req \<noteq> [] \<Longrightarrow>
   status_of (Heartbeat req resp now s) =
     (if lookup_node (rs_node_table s) (hq_node_id req) = None
      then mk_status SC_NOT_FOUND ''Node not registered'' else Status_OK)"
  using update_heartbeat_success [of "hq_node_id req" "hq_cpu_usage req" "hq_memory_usage req"
      "hq_active_connections req" now "rs_node_table s"]
  by (auto simp: Heartbeat_def Let_def split_beta)

lemma Heartbeat_ok_response:
  "status_ok (status_of (Heartbeat req resp now s)) \<Longrightarrow>
   hr_success (response_of (Heartbeat req resp now s)) \<and>
   \<not> hr_should_reconnect (response_of (Heartbeat req resp now s))"
  by (auto simp: Heartbeat_def Let_def split_beta split: if_splits)

section \<open>Properties\<close>

lemma Register_OK_cases:
  assumes "status_ok (status_of (Register req resp rnd now s))"
  obtains i where "rs_is_running s" "rq_node_info req = Some i" "node_id i \<noteq> []"
    "fst (register_node i (make_session_id i rnd) now (rs_node_table s))"
    "Register req resp rnd now s =
       (Status_OK,
        resp\<lparr>rr_success := True, rr_session_id := make_session_id i rnd,
          rr_heartbeat_interval := 1000, rr_error_message := ''''\<rparr>,
        s\<lparr>rs_node_table := snd (register_node i (make_session_id i rnd) now (rs_node_table s))\<rparr>)"
  using assms
  by (auto simp: Register_def Let_def split_beta split: if_splits option.splits)

text \<open>C19: Register answers OK exactly when the service is running, the request carries node info
  with a non-empty id, that id is not registered and the table has room. Then the response reports
  success with the generated session id and a 1000 ms heartbeat interval, and the table gains
  exactly the fresh entry; in every other case the response does not report success and the table's
  contents are unchanged.\<close>

theorem Register_correct:
  assumes "Register req RegisterResponse_default rnd now s = (st, r, s')"
  shows "(status_ok st \<longleftrightarrow>
            rs_is_running s \<and>
            (\<exists>i. rq_node_info req = Some i \<and> node_id i \<noteq> [] \<and>
                 lookup_node (rs_node_table s) (node_id i) = None \<and>
                 length (nt_nodes (rs_node_table s)) < unat (nt_max_nodes (rs_node_table s)))) \<and>
         (status_ok st \<longrightarrow>
            rr_success r \<and> rr_heartbeat_interval r = 1000 \<and>
            rr_session_id r = make_session_id (the (rq_node_info req)) rnd \<and>
            lookup_node (rs_node_table s') =
              (lookup_node (rs_node_table s))
                (node_id (the (rq_node_info req)) \<mapsto>
                   fresh_entry (the (rq_node_info req)) (rr_session_id r) now)) \<and>
         (\<not> status_ok st \<longrightarrow>
            \<not> rr_success r \<and> lookup_node (rs_node_table s') = lookup_node (rs_node_table s))"
  using assms
  by (auto simp: Register_def Let_def split_beta RegisterResponse_default_def register_node_success
      lookup_register split: if_splits option.splits)

definition demo_service :: RegistryServiceImpl where
  "demo_service = RegistryServiceImpl_new 2"

definition demo_register :: "string \<Rightarrow> RegisterRequest" where
  "demo_register k = RegisterRequest_default\<lparr>rq_node_info := Some (demo_node k)\<rparr>"

definition demo_heartbeat :: "string \<Rightarrow> HeartbeatRequest" where
  "demo_heartbeat k = HeartbeatRequest_default\<lparr>hq_node_id := k\<rparr>"

theorem Register_correct_witness:
  "\<exists>st r s'. Register (demo_register ''a'') RegisterResponse_default 42 5 demo_service = (st, r, s') \<and>
     status_ok st \<and> rr_session_id r = ''a_42'' \<and>
     lookup_node (rs_node_table s') ''a'' = Some (fresh_entry (demo_node ''a'') ''a_42'' 5)"
proof -
  obtain st r s' where R: "Register (demo_register ''a'') RegisterResponse_default 42 5 demo_service = (st, r, s')"
    by (metis prod_cases3)
  have sid: "make_session_id (demo_node ''a'') 42 = ''a_42''"
    by code_simp
  have ok: "status_ok st"
    using Register_correct [OF R]
    by (simp add: demo_register_def demo_service_def RegistryServiceImpl_new_def NodeTable_new_def
        lookup_node_def um_find_def demo_node_def RegisterRequest_default_def)
  with Register_correct [OF R] R sid show ?thesis
    by (auto simp: demo_register_def RegisterRequest_default_def) (simp add: demo_node_def)
qed

lemma Discover_registered:
  assumes "table_inv (rs_node_table s)"
    and "j \<in> set (dresp_nodes (snd (Discover req DiscoverResponse_default s)))"
  shows "lookup_node (rs_node_table s) (node_id j) \<noteq> None"
proof -
  obtain k e where e: "lookup_node (rs_node_table s) k = Some e" "j = info e"
    using assms(2) set_discovered [OF assms(1), of "service_filter req"]
    by (auto simp: Discover_eq add_nodes_eq DiscoverResponse_default_def)
  then have "node_id j = k"
    using assms(1) by (auto simp: table_inv_def lookup_node_def dest: um_find_Some_set)
  with e show ?thesis by simp
qed

text \<open>C16: The life of a registration. After a Register that answered OK, a heartbeat of that node
  answers OK and asks for no reconnection, discovery without a filter or by any of the node's
  services returns its info, and after a Deregister a heartbeat answers NOT_FOUND with the
  reconnect flag set and discovery no longer returns any node with that id.\<close>

theorem registration_life:
  assumes "service_inv s"
    and "Register req RegisterResponse_default rnd now s = (st, r, s1)" and "status_ok st"
    and "i = the (rq_node_info req)"
    and "hq_node_id hreq = node_id i" and "dq_node_id dreq = node_id i"
    and "flt = [] \<or> (\<exists>svc \<in> set (services i). svc \<in> set flt)"
  shows "status_ok (status_of (Heartbeat hreq hresp hnow s1)) \<and>
         \<not> hr_should_reconnect (response_of (Heartbeat hreq hresp hnow s1)) \<and>
         i \<in> set (dresp_nodes (snd (Discover \<lparr>service_filter = flt\<rparr> DiscoverResponse_default s1))) \<and>
         (let s2 = service_of (Deregister dreq dresp s1) in
            status_of (Heartbeat hreq hresp hnow s2) = mk_status SC_NOT_FOUND ''Node not registered'' \<and>
            hr_should_reconnect (response_of (Heartbeat hreq hresp hnow s2)) \<and>
            (\<forall>j \<in> set (dresp_nodes (snd (Discover \<lparr>service_filter = flt'\<rparr> DiscoverResponse_default s2))).
               node_id j \<noteq> node_id i))"
proof -
  have ok: "status_ok (status_of (Register req RegisterResponse_default rnd now s))"
    using assms(2,3) by simp
  obtain i' where i': "rq_node_info req = Some i'" "node_id i' \<noteq> []"
      "fst (register_node i' (make_session_id i' rnd) now (rs_node_table s))"
      "rs_node_table s1 = snd (register_node i' (make_session_id i' rnd) now (rs_node_table s))"
    by (rule Register_OK_cases [OF ok]) (use assms(2) in auto)
  then have ne: "node_id i \<noteq> []"
    and reg: "fst (register_node i (make_session_id i rnd) now (rs_node_table s))"
    and t1: "rs_node_table s1 = snd (register_node i (make_session_id i rnd) now (rs_node_table s))"
    using assms(4) by simp_all
  have inv1: "table_inv (rs_node_table s1)"
    using assms(1) t1 by (simp add: service_inv_def register_node_inv)
  have l1: "lookup_node (rs_node_table s1) (node_id i) = Some (fresh_entry i (make_session_id i rnd) now)"
    using reg t1 by (simp add: lookup_register)
  have hb: "status_of (Heartbeat hreq hresp hnow s1) = Status_OK"
    using l1 ne assms(5) by (simp add: Heartbeat_status)
  have "fresh_entry i (make_session_id i rnd) now \<in> set (get_nodes_by_service flt (rs_node_table s1))"
    using set_discovered [OF inv1, of flt] l1 assms(7)
    by (auto simp: discoverable_def fresh_entry_def)
  then have disc: "i \<in> set (dresp_nodes (snd (Discover \<lparr>service_filter = flt\<rparr> DiscoverResponse_default s1)))"
    by (force simp: Discover_eq add_nodes_eq fresh_entry_def)
  define s2 where "s2 = service_of (Deregister dreq dresp s1)"
  have t2: "rs_node_table s2 = table_step (DeregisterOp (node_id i)) (rs_node_table s1)"
    by (simp add: s2_def Deregister_table assms(6))
  have inv2: "table_inv (rs_node_table s2)" using inv1 t2 by (simp add: nt.exec_invar)
  have l2: "lookup_node (rs_node_table s2) (node_id i) = None"
    using inv1 t2 by (simp add: nt.lookup_dereg)
  have gone: "node_id j \<noteq> node_id i"
    if "j \<in> set (dresp_nodes (snd (Discover \<lparr>service_filter = flt'\<rparr> DiscoverResponse_default s2)))" for j
    using Discover_registered [OF inv2 that] l2 by auto
  have "status_of (Heartbeat hreq hresp hnow s2) = mk_status SC_NOT_FOUND ''Node not registered'' \<and>
        hr_should_reconnect (response_of (Heartbeat hreq hresp hnow s2))"
    using l2 ne assms(5) update_heartbeat_success [of "node_id i" _ _ _ hnow "rs_node_table s2"]
    by (simp add: Heartbeat_def Let_def split_beta)
  with hb disc gone Heartbeat_ok_response [of hreq hresp hnow s1] show ?thesis
    by (simp add: s2_def Let_def)
qed

theorem registration_life_witness:
  "demo_node ''a'' \<in> set (dresp_nodes (snd (Discover \<lparr>service_filter = [''lidar'']\<rparr> DiscoverResponse_default
     (service_of (Register (demo_register ''a'') RegisterResponse_default 42 5 demo_service)))))"
proof -
  let ?R = "Register (demo_register ''a'') RegisterResponse_default 42 5 demo_service"
  have R: "?R = (status_of ?R, response_of ?R, service_of ?R)" by simp
  have ok: "status_ok (status_of ?R)" by code_simp
  have i: "demo_node ''a'' = the (rq_node_info (demo_register ''a''))"
    by (simp add: demo_register_def)
  have f: "[''lidar''] = [] \<or> (\<exists>svc \<in> set (services (demo_node ''a'')). svc \<in> set [''lidar''])"
    by (simp add: demo_node_def)
  have h: "hq_node_id (demo_heartbeat ''a'') = node_id (demo_node ''a'')"
    "dq_node_id (DeregisterRequest_default\<lparr>dq_node_id := ''a''\<rparr>) = node_id (demo_node ''a'')"
    by (simp_all add: demo_heartbeat_def demo_node_def)
  have "service_inv demo_service" by (simp add: demo_service_def)
  from registration_life [OF this R ok i h f] show ?thesis by simp
qed

text \<open>Session ids determine what they were made from: two registrations get the same session id
  only if they are for the same node id and the same random number, so no two nodes ever share a
  session id; one node registering again with the same random number gets its old id back.\<close>

lemma session_ids_identify:
  "make_session_id i a = make_session_id j b \<longleftrightarrow> node_id i = node_id j \<and> a = b"
proof
  assume "make_session_id i a = make_session_id j b"
  then have "node_id i @ CHR ''_'' # to_string a = node_id j @ CHR ''_'' # to_string b"
    by (simp add: make_session_id_def)
  then show "node_id i = node_id j \<and> a = b"
    using split_last_separator underscore_not_in_to_string to_string_inj by metis
qed (simp add: make_session_id_def)

text \<open>A registry that has been shut down rejects every Register with UNAVAILABLE and changes
  nothing, but it goes on serving the other three calls exactly as before: heartbeats,
  deregistrations and discovery give the same status, response and table as without the shutdown.\<close>

lemma Shutdown_blocks_only_Register:
  "Register rreq rresp rnd now (Shutdown s) =
     (mk_status SC_UNAVAILABLE ''Service is shutting down'', rresp, Shutdown s) \<and>
   Heartbeat hreq hresp now (Shutdown s) =
     (let (st, r, s') = Heartbeat hreq hresp now s in (st, r, Shutdown s')) \<and>
   Deregister dreq dresp (Shutdown s) =
     (let (st, r, s') = Deregister dreq dresp s in (st, r, Shutdown s')) \<and>
   Discover vreq vresp (Shutdown s) = Discover vreq vresp s"
  by (simp add: Shutdown_eq Register_def Heartbeat_def Deregister_def Discover_def Let_def split_beta)

text \<open>Neither Heartbeat nor Deregister looks at the session id: whatever session id a request
  carries, the answer and the effect are the same, so a stale session, or another client that
  knows only the node id, keeps a registration alive or removes it.\<close>

lemma session_id_is_ignored:
  "Heartbeat (hreq\<lparr>hq_session_id := x\<rparr>) hresp now s = Heartbeat hreq hresp now s \<and>
   Deregister (dreq\<lparr>dq_session_id := y\<rparr>) dresp s = Deregister dreq dresp s"
  by (simp add: Heartbeat_def Deregister_def)

text \<open>A Register for a node that is not registered, sent to a running registry whose table is
  full, is answered ALREADY_EXISTS with the message Duplicate node: a client cannot tell a full
  table from a duplicate id.\<close>

lemma full_table_reported_as_duplicate:
  assumes "rs_is_running s" and "rq_node_info req = Some i" and "node_id i \<noteq> []"
    and "lookup_node (rs_node_table s) (node_id i) = None"
    and "length (nt_nodes (rs_node_table s)) = unat (nt_max_nodes (rs_node_table s))"
  shows "status_of (Register req resp rnd now s) = mk_status SC_ALREADY_EXISTS ''Duplicate node''"
  using assms by (simp add: Register_def register_node_def)

end
