(* ===== verification/Health_Checker.thy ===== *)
theory Health_Checker
  imports Node_Directory
begin

text \<open>
  \<^verbatim>\<open>src/registry/health_checker.h\<close> and \<^verbatim>\<open>health_checker.cpp\<close>: the background thread that
  ages the node table. This theory has the object's state with \<^verbatim>\<open>start\<close>, \<^verbatim>\<open>stop\<close> and the
  running flag, and one iteration of the monitoring loop as a function on the table when nothing
  interleaves with it. The loop as a thread beside the RPC handlers is in \<open>Registry_System\<close>.
\<close>

section \<open>State and life cycle\<close>

record HealthChecker =
  hc_thread :: jthread
  hc_is_running :: bool
  hc_check_interval_ms :: u32
  hc_max_missed_heartbeats :: u32

definition HealthChecker_new :: "u32 \<Rightarrow> u32 \<Rightarrow> HealthChecker" where
  "HealthChecker_new interval_ms max_missed =
     \<lparr>hc_thread = NotJoinable, hc_is_running = False, hc_check_interval_ms = interval_ms,
      hc_max_missed_heartbeats = max_missed\<rparr>"

definition HealthChecker_start :: "HealthChecker \<Rightarrow> HealthChecker" where
  "HealthChecker_start h =
     (let (was, r) = atomic_exchange (hc_is_running h) True; h' = h\<lparr>hc_is_running := r\<rparr>
      in if was then h' else h'\<lparr>hc_thread := Joinable False\<rparr>)"

definition HealthChecker_stop :: "HealthChecker \<Rightarrow> HealthChecker" where
  "HealthChecker_stop h =
     (let (was, r) = atomic_exchange (hc_is_running h) False; h' = h\<lparr>hc_is_running := r\<rparr>
      in if \<not> was then h'
         else if joinable (hc_thread h') then h'\<lparr>hc_thread := join (request_stop (hc_thread h'))\<rparr>
         else h')"

definition HealthChecker_is_running :: "HealthChecker \<Rightarrow> bool" where
  "HealthChecker_is_running h = hc_is_running h"

text \<open>The running flag and the thread agree.\<close>

definition checker_ok :: "HealthChecker \<Rightarrow> bool" where
  "checker_ok h \<longleftrightarrow> hc_thread h = (if hc_is_running h then Joinable False else NotJoinable)"

lemma checker_ok_new [simp]: "checker_ok (HealthChecker_new i m)"
  by (simp add: checker_ok_def HealthChecker_new_def)

interpretation hc: service_lifecycle checker_ok HealthChecker_start HealthChecker_stop
  HealthChecker_is_running
  by unfold_locales
    (auto simp: checker_ok_def HealthChecker_start_def HealthChecker_stop_def
      HealthChecker_is_running_def atomic_exchange_def join_def Let_def split: if_splits)

section \<open>One iteration of the loop\<close>

text \<open>
  The body of \<^verbatim>\<open>run_loop\<close> after the sleep: increment, remove, count. The result is the removed
  node ids, the count that is logged, and the table.
\<close>

definition run_loop_body :: "u32 \<Rightarrow> NodeTable \<Rightarrow> string list \<times> u32 \<times> NodeTable" where
  "run_loop_body max_missed t =
     (let t1 = increment_all_missed_heartbeats t;
          (removed, t2) = remove_stale_nodes max_missed t1;
          count = get_node_count t2
      in (removed, count, t2))"

abbreviation tick :: "u32 \<Rightarrow> NodeTable \<Rightarrow> NodeTable" where
  "tick m t \<equiv> snd (snd (run_loop_body m t))"

lemma tick_steps: "tick m t = fold table_step [IncrementOp, SweepOp m] t"
  by (simp add: run_loop_body_def table_step_def Let_def split_beta)

lemma tick_inv: "table_inv t \<Longrightarrow> table_inv (tick m t)"
  by (simp only: tick_steps nt.run_invar)

text \<open>What a tick does to one entry.\<close>

lemma lookup_tick:
  assumes "table_inv t"
  shows "lookup_node (tick m t) k =
     (case lookup_node t k of None \<Rightarrow> None
      | Some e \<Rightarrow> if missed_heartbeats e + 1 < m then Some (bump_entry e) else None)"
  using assms
  by (simp add: tick_steps nt.lookup_inc nt.lookup_sweep nt.exec_invar bump_entry_def split: option.split)

text \<open>Entries below the threshold: the condition every tick establishes and later ticks rely on.\<close>

definition aged_below :: "u32 \<Rightarrow> NodeTable \<Rightarrow> bool" where
  "aged_below m t \<longleftrightarrow> (\<forall>k e. lookup_node t k = Some e \<longrightarrow> missed_heartbeats e < m)"

lemma aged_below_tick: "table_inv t \<Longrightarrow> aged_below m (tick m t)"
  by (auto simp: aged_below_def lookup_tick bump_entry_def split: option.splits if_splits)

lemma aged_below_bump:
  assumes "aged_below m t" and "lookup_node t k = Some e"
  shows "unat (missed_heartbeats e + 1) = Suc (unat (missed_heartbeats e))"
  using assms unat_plus_one_u32 [of "missed_heartbeats e" m] by (simp add: aged_below_def)

text \<open>After a tick no entry has the counter at zero, so discovery finds nobody until a heartbeat.\<close>

lemma tick_hides_all:
  assumes "table_inv t" and "aged_below m t"
  shows "get_nodes_by_service flt (tick m t) = []"
proof -
  have "\<not> discoverable flt e" if "lookup_node (tick m t) k = Some e" for k e
  proof -
    from that assms(1) obtain e0 where e0: "lookup_node t k = Some e0" "e = bump_entry e0"
      by (auto simp: lookup_tick split: option.splits if_splits)
    with aged_below_bump [OF assms(2) e0(1)] have "unat (missed_heartbeats e) \<noteq> 0"
      by (simp add: bump_entry_def)
    then have "missed_heartbeats e \<noteq> 0" by auto
    then show ?thesis by (simp add: discoverable_def)
  qed
  then have "set (get_nodes_by_service flt (tick m t)) = {}"
    using set_discovered [OF tick_inv [OF assms(1)], of flt m] by auto
  then show ?thesis by simp
qed

text \<open>\<open>n\<close> ticks in a row, nothing in between.\<close>

lemma ticks_inv: "table_inv t \<Longrightarrow> table_inv ((tick m ^^ n) t)"
  by (induction n) (auto intro: tick_inv)

lemma ticks_absent: "table_inv t \<Longrightarrow> lookup_node t k = None \<Longrightarrow> lookup_node ((tick m ^^ n) t) k = None"
  by (induction n) (auto simp: lookup_tick ticks_inv)

lemma lookup_ticks:
  assumes "table_inv t" and "lookup_node t k = Some e" and "unat (missed_heartbeats e) + n < 2 ^ 32"
  shows "lookup_node ((tick m ^^ n) t) k =
     (if n = 0 \<or> unat (missed_heartbeats e) + n < unat m
      then Some (e\<lparr>missed_heartbeats := missed_heartbeats e + word_of_nat n\<rparr>) else None)"
  using assms
proof (induction n arbitrary: t e)
  case 0
  then show ?case by simp
next
  case (Suc n)
  have u: "unat (missed_heartbeats e + 1) = Suc (unat (missed_heartbeats e))"
    using Suc.prems(3) by (simp add: unat_word_ariths)
  have inv1: "table_inv (tick m t)" using Suc.prems(1) by (rule tick_inv)
  have step: "lookup_node (tick m t) k =
      (if missed_heartbeats e + 1 < m then Some (bump_entry e) else None)"
    using Suc.prems(1,2) by (simp add: lookup_tick)
  have shift: "(tick m ^^ Suc n) t = (tick m ^^ n) (tick m t)"
    by (simp only: funpow_Suc_right o_apply)
  show ?case
  proof (cases "missed_heartbeats e + 1 < m")
    case True
    have "lookup_node ((tick m ^^ n) (tick m t)) k =
        (if n = 0 \<or> unat (missed_heartbeats (bump_entry e)) + n < unat m
         then Some ((bump_entry e)\<lparr>missed_heartbeats := missed_heartbeats (bump_entry e) + word_of_nat n\<rparr>)
         else None)"
      using Suc.IH [OF inv1, of "bump_entry e"] True step u Suc.prems(3) by (simp add: bump_entry_def)
    with True u show ?thesis
      unfolding shift by (auto simp: bump_entry_def word_less_nat_alt add.assoc)
  next
    case False
    with step inv1 ticks_absent [where t = "tick m t" and m = m and n = n and k = k] u show ?thesis
      unfolding shift by (simp add: word_less_nat_alt)
  qed
qed

section \<open>Properties\<close>

text \<open>A node whose counter has just been reset by a heartbeat or a registration, and from which
  nothing more is heard, is still registered after n iterations of the health checker's loop if and
  only if n is smaller than the threshold: with the default threshold 3 it survives two ticks and
  the third removes it.\<close>

lemma silent_node_evicted_at_threshold:
  assumes "table_inv t" and "lookup_node t k = Some e" and "missed_heartbeats e = 0"
    and "0 < n" and "n < 2 ^ 32"
  shows "lookup_node (((\<lambda>u. snd (snd (run_loop_body m u))) ^^ n) t) k \<noteq> None \<longleftrightarrow> n < unat m"
  using lookup_ticks [OF assms(1,2), of n m] assms(3-5) by simp



text \<open>After any sequence of start and stop calls on a health checker, it reports running exactly
  if the last call was a start, and then, and only then, it owns a joinable thread that has not
  been asked to stop; repeated calls change nothing.\<close>

lemma health_checker_follows_last_command:
  "HealthChecker_is_running
     (fold (\<lambda>c. if c then HealthChecker_start else HealthChecker_stop) (cs @ [c]) (HealthChecker_new i m)) = c \<and>
   hc_thread
     (fold (\<lambda>c. if c then HealthChecker_start else HealthChecker_stop) (cs @ [c]) (HealthChecker_new i m)) =
     (if c then Joinable False else NotJoinable)"
proof -
  have "checker_ok (HealthChecker_new i m)" by simp
  from hc.running_last [OF this, of cs c] hc.exec_all_ok [OF this, of "cs @ [c]"] show ?thesis
    unfolding checker_ok_def HealthChecker_is_running_def by simp
qed

end
