(* ===== verification/Registry_System.thy ===== *)
theory Registry_System
  imports Registry_Service Health_Checker
begin

text \<open>
  The running registry: RPC handlers on gRPC's threads, the health checker's thread and the
  controlling thread that starts and stops them, interleaved. A step is one access to shared
  state: a call of a node table method (one lock scope), an access to an atomic flag, or a read of
  the stop token. \<^verbatim>\<open>Register\<close> is two steps (\<open>Register_check\<close>, \<open>Register_commit\<close>), one
  iteration of \<^verbatim>\<open>HealthChecker::run_loop\<close> is a walk through the program counter \<open>hc_pc\<close>,
  and \<^verbatim>\<open>HealthChecker::stop\<close> is the request followed by the join, which waits for the thread
  to leave its loop. Start and stop come from one controlling thread, as in
  \<^verbatim>\<open>examples/registry_server.cpp\<close>, so start never overlaps a pending join.
\<close>

section \<open>States and steps\<close>

text \<open>
  Where \<^verbatim>\<open>run_loop\<close> is: no thread, at the loop test, asleep, at the second stop test, before
  the increment, before the removal, before the count, past the loop.
\<close>

datatype hc_pc = HC_None | HC_Test | HC_Sleep | HC_Recheck | HC_Increment | HC_Sweep | HC_Count | HC_Exited

record registry_sys =
  sys_service :: RegistryServiceImpl
  sys_pending :: "NodeInfo list"
  sys_checker :: HealthChecker
  sys_pc :: hc_pc

abbreviation sys_table :: "registry_sys \<Rightarrow> NodeTable" where
  "sys_table s \<equiv> rs_node_table (sys_service s)"

abbreviation sys_stop_requested :: "registry_sys \<Rightarrow> bool" where
  "sys_stop_requested s \<equiv> hc_thread (sys_checker s) = Joinable True"

abbreviation sys_threshold :: "registry_sys \<Rightarrow> u32" where
  "sys_threshold s \<equiv> hc_max_missed_heartbeats (sys_checker s)"

definition with_table :: "(NodeTable \<Rightarrow> NodeTable) \<Rightarrow> registry_sys \<Rightarrow> registry_sys" where
  "with_table f s = s\<lparr>sys_service := (sys_service s)\<lparr>rs_node_table := f (sys_table s)\<rparr>\<rparr>"

datatype sys_event =
    EvRegisterBegin RegisterRequest
  | EvRegisterCommit NodeInfo int time_point
  | EvHeartbeat HeartbeatRequest time_point
  | EvDeregister DeregisterRequest
  | EvDiscover DiscoverRequest
  | EvShutdown
  | EvStart
  | EvStop
  | EvJoined
  | EvTest
  | EvWake
  | EvRecheck
  | EvIncrement
  | EvSweep
  | EvCount

definition sys_init :: "u32 \<Rightarrow> u32 \<Rightarrow> u32 \<Rightarrow> registry_sys" where
  "sys_init max_nodes interval_ms max_missed =
     \<lparr>sys_service = RegistryServiceImpl_new max_nodes, sys_pending = [],
      sys_checker = HealthChecker_new interval_ms max_missed, sys_pc = HC_None\<rparr>"

inductive sys_step :: "registry_sys \<Rightarrow> sys_event \<Rightarrow> registry_sys \<Rightarrow> bool" where
  RegisterRejected:
    "Register_check req RegisterResponse_default (sys_service s) = Inl r \<Longrightarrow>
     sys_step s (EvRegisterBegin req) s"
| RegisterAccepted:
    "Register_check req RegisterResponse_default (sys_service s) = Inr i \<Longrightarrow>
     sys_step s (EvRegisterBegin req) (s\<lparr>sys_pending := i # sys_pending s\<rparr>)"
| RegisterCommit:
    "i \<in> set (sys_pending s) \<Longrightarrow>
     sys_step s (EvRegisterCommit i rnd now)
       (s\<lparr>sys_pending := remove1 i (sys_pending s),
         sys_service := service_of (Register_commit i RegisterResponse_default rnd now (sys_service s))\<rparr>)"
| HeartbeatCall:
    "sys_step s (EvHeartbeat hreq now)
       (s\<lparr>sys_service := service_of (Heartbeat hreq HeartbeatResponse_default now (sys_service s))\<rparr>)"
| DeregisterCall:
    "sys_step s (EvDeregister dreq)
       (s\<lparr>sys_service := service_of (Deregister dreq DeregisterResponse_default (sys_service s))\<rparr>)"
| DiscoverCall: "sys_step s (EvDiscover vreq) s"
| ShutdownCall: "sys_step s EvShutdown (s\<lparr>sys_service := Shutdown (sys_service s)\<rparr>)"
| StartFresh:
    "\<not> hc_is_running (sys_checker s) \<Longrightarrow> sys_pc s = HC_None \<Longrightarrow>
     sys_step s EvStart (s\<lparr>sys_checker := HealthChecker_start (sys_checker s), sys_pc := HC_Test\<rparr>)"
| StartIgnored:
    "hc_is_running (sys_checker s) \<Longrightarrow>
     sys_step s EvStart (s\<lparr>sys_checker := HealthChecker_start (sys_checker s)\<rparr>)"
| StopIgnored:
    "\<not> hc_is_running (sys_checker s) \<Longrightarrow> sys_step s EvStop s"
| StopRequest:
    "hc_is_running (sys_checker s) \<Longrightarrow>
     sys_step s EvStop
       (s\<lparr>sys_checker := (sys_checker s)\<lparr>hc_is_running := False,
            hc_thread := request_stop (hc_thread (sys_checker s))\<rparr>\<rparr>)"
| StopJoined:
    "sys_pc s = HC_Exited \<Longrightarrow> \<not> hc_is_running (sys_checker s) \<Longrightarrow>
     sys_step s EvJoined
       (s\<lparr>sys_checker := (sys_checker s)\<lparr>hc_thread := join (hc_thread (sys_checker s))\<rparr>,
          sys_pc := HC_None\<rparr>)"
| LoopTest:
    "sys_pc s = HC_Test \<Longrightarrow>
     sys_step s EvTest (s\<lparr>sys_pc := (if sys_stop_requested s then HC_Exited else HC_Sleep)\<rparr>)"
| LoopWake: "sys_pc s = HC_Sleep \<Longrightarrow> sys_step s EvWake (s\<lparr>sys_pc := HC_Recheck\<rparr>)"
| LoopRecheck:
    "sys_pc s = HC_Recheck \<Longrightarrow>
     sys_step s EvRecheck (s\<lparr>sys_pc := (if sys_stop_requested s then HC_Exited else HC_Increment)\<rparr>)"
| LoopIncrement:
    "sys_pc s = HC_Increment \<Longrightarrow>
     sys_step s EvIncrement (with_table increment_all_missed_heartbeats s\<lparr>sys_pc := HC_Sweep\<rparr>)"
| LoopSweep:
    "sys_pc s = HC_Sweep \<Longrightarrow>
     sys_step s EvSweep
       (with_table (\<lambda>t. snd (remove_stale_nodes (sys_threshold s) t)) s\<lparr>sys_pc := HC_Count\<rparr>)"
| LoopCount: "sys_pc s = HC_Count \<Longrightarrow> sys_step s EvCount (s\<lparr>sys_pc := HC_Test\<rparr>)"

inductive_cases sys_stepE: "sys_step s e s'"

inductive_simps sys_step_checker_simps [step_simps]:
  "sys_step s EvTest s'"
  "sys_step s EvWake s'"
  "sys_step s EvRecheck s'"
  "sys_step s EvIncrement s'"
  "sys_step s EvSweep s'"
  "sys_step s EvCount s'"

section \<open>Every step is at most one table operation\<close>

fun event_op :: "u32 \<Rightarrow> sys_event \<Rightarrow> table_op list" where
  "event_op m (EvRegisterCommit i rnd now) = [RegisterOp i (make_session_id i rnd) now]"
| "event_op m (EvHeartbeat req now) =
     (if hq_node_id req = [] then []
      else [HeartbeatOp (hq_node_id req) (hq_cpu_usage req) (hq_memory_usage req)
              (hq_active_connections req) now])"
| "event_op m (EvDeregister req) = [DeregisterOp (dq_node_id req)]"
| "event_op m EvIncrement = [IncrementOp]"
| "event_op m EvSweep = [SweepOp m]"
| "event_op m e = []"

lemma sys_step_table:
  "sys_step s e s' \<Longrightarrow> sys_table s' = fold table_step (event_op (sys_threshold s) e) (sys_table s)"
  by (induction rule: sys_step.induct)
    (simp_all add: Register_commit_table Heartbeat_table Deregister_table Shutdown_eq with_table_def
      table_step_def split_beta Let_def)

lemma sys_step_threshold: "sys_step s e s' \<Longrightarrow> sys_threshold s' = sys_threshold s"
  by (induction rule: sys_step.induct)
    (simp_all add: HealthChecker_start_def atomic_exchange_def with_table_def Let_def)

lemma steps_threshold: "steps sys_step s es s' \<Longrightarrow> sys_threshold s' = sys_threshold s"
  by (induction rule: steps.induct) (simp_all add: sys_step_threshold)

lemma steps_table:
  "steps sys_step s es s' \<Longrightarrow>
   sys_table s' = fold table_step (concat (map (event_op (sys_threshold s)) es)) (sys_table s)"
  by (induction rule: steps.induct) (simp_all add: sys_step_table sys_step_threshold)

section \<open>The invariant of the running system\<close>

definition entries_all :: "(u32 \<Rightarrow> bool) \<Rightarrow> NodeTable \<Rightarrow> bool" where
  "entries_all P t \<longleftrightarrow> (\<forall>k e. lookup_node t k = Some e \<longrightarrow> P (missed_heartbeats e))"

lemma entries_all_step:
  assumes "table_inv t" and "entries_all P t" and "P 0" and "op \<noteq> IncrementOp"
  shows "entries_all P (table_step op t)"
  using assms
  by (cases op)
    (auto simp: entries_all_def lookup_table_step touch_entry_def fresh_entry_def
      split: if_splits option.splits)

lemma entries_all_increment:
  "table_inv t \<Longrightarrow> entries_all (\<lambda>w. P (w + 1)) t \<Longrightarrow> entries_all P (table_step IncrementOp t)"
  by (auto simp: entries_all_def lookup_table_step bump_entry_def)

lemma entries_all_sweep: "table_inv t \<Longrightarrow> entries_all (\<lambda>w. w < m) (table_step (SweepOp m) t)"
  by (auto simp: entries_all_def lookup_table_step split: option.splits if_splits)

lemma entries_all_mono: "entries_all P t \<Longrightarrow> (\<And>w. P w \<Longrightarrow> Q w) \<Longrightarrow> entries_all Q t"
  by (auto simp: entries_all_def)

text \<open>
  The age limit: the threshold, or one where the threshold is zero. Between the increment and the
  removal a counter may equal it; at every other point it is below.
\<close>

definition age_limit :: "u32 \<Rightarrow> u32" where
  "age_limit m = (if m = 0 then 1 else m)"

definition age_ok :: "hc_pc \<Rightarrow> u32 \<Rightarrow> u32 \<Rightarrow> bool" where
  "age_ok pc m w \<longleftrightarrow> (if pc = HC_Sweep then w \<le> age_limit m else w < age_limit m)"

lemma age_ok_0 [simp]: "age_ok pc m 0"
  by (simp add: age_ok_def age_limit_def word_neq_0_conv)

definition thread_ok :: "registry_sys \<Rightarrow> bool" where
  "thread_ok s \<longleftrightarrow>
     (sys_pc s = HC_None \<longleftrightarrow> hc_thread (sys_checker s) = NotJoinable) \<and>
     (hc_is_running (sys_checker s) \<longleftrightarrow> hc_thread (sys_checker s) = Joinable False) \<and>
     (sys_pc s = HC_Exited \<longrightarrow> sys_stop_requested s)"

definition sys_inv :: "registry_sys \<Rightarrow> bool" where
  "sys_inv s \<longleftrightarrow>
     service_inv (sys_service s) \<and>
     (\<forall>i \<in> set (sys_pending s). node_id i \<noteq> []) \<and>
     entries_all (age_ok (sys_pc s) (sys_threshold s)) (sys_table s) \<and>
     thread_ok s"

lemma sys_inv_init: "sys_inv (sys_init n i m)"
  by (simp add: sys_inv_def sys_init_def thread_ok_def HealthChecker_new_def)
    (simp add: entries_all_def RegistryServiceImpl_new_def NodeTable_new_def lookup_node_def um_find_def)

lemma sys_step_service_inv:
  assumes "sys_step s e s'" and "sys_inv s"
  shows "service_inv (sys_service s')"
proof -
  let ?ops = "event_op (sys_threshold s) e"
  have inv: "table_inv (sys_table s)" and none: "lookup_node (sys_table s) [] = None"
    using assms(2) by (simp_all add: sys_inv_def service_inv_def)
  have "\<not> registers [] ?ops"
    using assms by (cases e) (auto simp: sys_inv_def elim: sys_stepE)
  then show ?thesis
    using nt.run_invar [OF inv, of ?ops] nt.absent_stays [OF inv none, of ?ops]
    by (simp add: service_inv_def sys_step_table [OF assms(1)])
qed

lemma sys_step_pending:
  "sys_step s e s' \<Longrightarrow> \<forall>i \<in> set (sys_pending s). node_id i \<noteq> [] \<Longrightarrow>
   \<forall>i \<in> set (sys_pending s'). node_id i \<noteq> []"
  by (induction rule: sys_step.induct)
    (auto simp: Register_check_Inr with_table_def dest: subsetD [OF set_remove1_subset])

lemma sys_step_thread_ok: "sys_step s e s' \<Longrightarrow> thread_ok s \<Longrightarrow> thread_ok s'"
  by (induction rule: sys_step.induct)
    (auto simp: thread_ok_def HealthChecker_start_def atomic_exchange_def join_def with_table_def Let_def)

lemma sys_step_pc_other:
  "sys_step s e s' \<Longrightarrow> e \<noteq> EvIncrement \<Longrightarrow> e \<noteq> EvSweep \<Longrightarrow> (sys_pc s' = HC_Sweep) = (sys_pc s = HC_Sweep)"
  by (induction rule: sys_step.induct) (auto simp: with_table_def)

lemma sys_step_ages:
  assumes "sys_step s e s'" and "sys_inv s"
  shows "entries_all (age_ok (sys_pc s') (sys_threshold s')) (sys_table s')"
proof -
  let ?m = "sys_threshold s"
  have inv: "table_inv (sys_table s)"
    and age: "entries_all (age_ok (sys_pc s) ?m) (sys_table s)"
    using assms(2) by (simp_all add: sys_inv_def service_inv_def)
  have tab: "sys_table s' = fold table_step (event_op ?m e) (sys_table s)"
    using assms(1) by (rule sys_step_table)
  have thr: "sys_threshold s' = ?m" using assms(1) by (rule sys_step_threshold)
  consider (inc) "e = EvIncrement" | (sweep) "e = EvSweep" | (other) "e \<noteq> EvIncrement" "e \<noteq> EvSweep"
    by blast
  then show ?thesis
  proof cases
    case inc
    have pc: "sys_pc s = HC_Increment" "sys_pc s' = HC_Sweep"
      using assms(1) inc by (auto simp: step_simps)
    have "entries_all (\<lambda>w. w + 1 \<le> age_limit ?m) (sys_table s)"
      by (rule entries_all_mono [OF age]) (simp add: pc(1) age_ok_def inc_le)
    from entries_all_increment [OF inv this] show ?thesis
      using inc pc tab thr by (simp add: age_ok_def [abs_def])
  next
    case sweep
    have "sys_pc s' = HC_Count"
      using assms(1) sweep by (auto simp: step_simps)
    moreover have "entries_all (\<lambda>w. w < age_limit ?m) (table_step (SweepOp ?m) (sys_table s))"
      by (rule entries_all_mono [OF entries_all_sweep [OF inv]]) (auto simp: age_limit_def)
    ultimately show ?thesis
      using sweep tab thr by (simp add: age_ok_def [abs_def])
  next
    case other
    have "age_ok (sys_pc s') ?m = age_ok (sys_pc s) ?m"
      using sys_step_pc_other [OF assms(1) other] by (simp add: age_ok_def [abs_def])
    moreover have "entries_all (age_ok (sys_pc s) ?m) (fold table_step (event_op ?m e) (sys_table s))"
      using other inv age by (cases e) (auto intro: entries_all_step)
    ultimately show ?thesis using tab thr by simp
  qed
qed

interpretation registry: transition_invariant
  "\<lambda>s. \<exists>n i m. s = sys_init n i m" sys_step sys_inv
proof (unfold_locales, goal_cases)
  case (1 s)
  then show ?case using sys_inv_init by auto
next
  case (2 s e s')
  from 2(1) have "\<forall>i \<in> set (sys_pending s). node_id i \<noteq> []" and "thread_ok s"
    by (simp_all add: sys_inv_def)
  with 2 show ?case
    unfolding sys_inv_def [of s']
    using sys_step_service_inv sys_step_pending sys_step_ages sys_step_thread_ok by blast
qed

abbreviation sys_reachable :: "registry_sys \<Rightarrow> bool" where
  "sys_reachable \<equiv> reach (\<lambda>s. \<exists>n i m. s = sys_init n i m) sys_step"

section \<open>Life of a node in the running system\<close>

text \<open>Along a run without a registration of \<open>k\<close>, an absent node stays absent.\<close>

definition commits :: "string \<Rightarrow> sys_event list \<Rightarrow> bool" where
  "commits k es \<longleftrightarrow> (\<exists>i rnd now. EvRegisterCommit i rnd now \<in> set es \<and> node_id i = k)"

definition beats :: "string \<Rightarrow> sys_event list \<Rightarrow> bool" where
  "beats k es \<longleftrightarrow> (\<exists>req now. EvHeartbeat req now \<in> set es \<and> hq_node_id req = k)"

definition leaves :: "string \<Rightarrow> sys_event list \<Rightarrow> bool" where
  "leaves k es \<longleftrightarrow> (\<exists>req. EvDeregister req \<in> set es \<and> dq_node_id req = k)"

definition ages :: "sys_event list \<Rightarrow> nat" where
  "ages es = length (filter (\<lambda>e. e = EvIncrement) es)"

lemma events_Cons:
  "commits k (e # es) \<longleftrightarrow> commits k [e] \<or> commits k es"
  "beats k (e # es) \<longleftrightarrow> beats k [e] \<or> beats k es"
  "leaves k (e # es) \<longleftrightarrow> leaves k [e] \<or> leaves k es"
  unfolding commits_def beats_def leaves_def list.set by blast+

lemma ages_simps [simp]:
  "ages [] = 0"
  "ages (e # es) = (if e = EvIncrement then Suc (ages es) else ages es)"
  by (simp_all add: ages_def)

lemma increments_event_op: "increments (concat (map (event_op m) es)) = ages es"
proof (induction es)
  case Nil
  then show ?case by simp
next
  case (Cons e es)
  then show ?case by (cases e) auto
qed

lemma ops_of_events:
  "registers k (concat (map (event_op m) es)) \<longleftrightarrow> commits k es"
  "DeregisterOp k \<in> set (concat (map (event_op m) es)) \<longleftrightarrow> leaves k es"
  "SweepOp m' \<in> set (concat (map (event_op m) es)) \<Longrightarrow> m' = m"
proof -
  show "registers k (concat (map (event_op m) es)) \<longleftrightarrow> commits k es"
  proof (induction es)
    case Nil
    then show ?case by (simp add: commits_def)
  next
    case (Cons e es)
    then show ?case by (cases e) (auto simp: commits_def)
  qed
  show "DeregisterOp k \<in> set (concat (map (event_op m) es)) \<longleftrightarrow> leaves k es"
  proof (induction es)
    case Nil
    then show ?case by (simp add: leaves_def)
  next
    case (Cons e es)
    then show ?case by (cases e) (auto simp: leaves_def)
  qed
  show "SweepOp m' \<in> set (concat (map (event_op m) es)) \<Longrightarrow> m' = m"
  proof (induction es)
    case Nil
    then show ?case by simp
  next
    case (Cons e es)
    then show ?case by (cases e) (auto split: if_splits)
  qed
qed

text \<open>
  One step of a silent node: it disappears, or its counter moves by exactly one on an increment
  and not at all otherwise. The invariant excludes wrap-around.
\<close>

lemma silent_step:
  assumes "sys_inv s" and "sys_step s e s'" and "lookup_node (sys_table s) k = Some en"
    and "\<not> beats k [e]" and "\<not> commits k [e]"
    and "lookup_node (sys_table s') k = Some en'"
  shows "unat (missed_heartbeats en') = unat (missed_heartbeats en) + ages [e]"
proof -
  have inv: "table_inv (sys_table s)" using assms(1) by (simp add: sys_inv_def service_inv_def)
  have tab: "sys_table s' = fold table_step (event_op (sys_threshold s) e) (sys_table s)"
    using assms(2) by (rule sys_step_table)
  show ?thesis
  proof (cases "e = EvIncrement")
    case True
    then have "sys_pc s = HC_Increment" using assms(2) by (simp add: step_simps)
    with assms(1,3) have "missed_heartbeats en < age_limit (sys_threshold s)"
      by (auto simp: sys_inv_def entries_all_def age_ok_def)
    moreover have "en' = bump_entry en"
      using True tab assms(3,6) inv by (simp add: nt.lookup_inc)
    ultimately show ?thesis
      using True by (simp add: bump_entry_def unat_plus_one_u32)
  next
    case False
    with tab assms(3-6) inv show ?thesis
      by (cases e)
        (auto simp: beats_def commits_def nt.lookup_reg_other nt.lookup_hb nt.lookup_dereg
          nt.lookup_sweep split: if_splits)
  qed
qed

lemma sys_absent_step:
  assumes "sys_inv s" and "sys_step s e s'" and "lookup_node (sys_table s) k = None"
    and "\<not> commits k [e]"
  shows "lookup_node (sys_table s') k = None"
proof -
  have "table_inv (sys_table s)" using assms(1) by (simp add: sys_inv_def service_inv_def)
  moreover have "\<not> registers k (event_op (sys_threshold s) e)"
    using assms(4) ops_of_events(1) [of k "sys_threshold s" "[e]"] by simp
  ultimately show ?thesis
    using assms(3) by (simp add: sys_step_table [OF assms(2)] nt.absent_stays)
qed

lemma silent_run:
  assumes "steps sys_step s es s'" and "sys_inv s" and "\<not> beats k es" and "\<not> commits k es"
    and "lookup_node (sys_table s') k = Some en'"
  shows "\<exists>en. lookup_node (sys_table s) k = Some en \<and>
           unat (missed_heartbeats en') = unat (missed_heartbeats en) + ages es"
  using assms
proof (induction rule: steps.induct)
  case (steps_Nil s)
  then show ?case by simp
next
  case (steps_Cons s e s' es s'')
  have inv': "sys_inv s'" using steps_Cons.prems(1) steps_Cons.hyps(1) by (rule registry.inv_step)
  have e: "\<not> beats k [e]" "\<not> commits k [e]" and es: "\<not> beats k es" "\<not> commits k es"
    using steps_Cons.prems(2,3) events_Cons by blast+
  from steps_Cons.IH [OF inv' es steps_Cons.prems(4)] obtain en1 where
    en1: "lookup_node (sys_table s') k = Some en1"
      "unat (missed_heartbeats en') = unat (missed_heartbeats en1) + ages es" by blast
  then obtain en where en: "lookup_node (sys_table s) k = Some en"
    using sys_absent_step [OF steps_Cons.prems(1) steps_Cons.hyps(1) _ e(2)] by fastforce
  from silent_step [OF steps_Cons.prems(1) steps_Cons.hyps(1) en e en1(1)] en en1(2)
  show ?case by (auto split: if_splits)
qed

lemma survives_run:
  assumes "steps sys_step s es s'" and "sys_inv s" and "lookup_node (sys_table s) k = Some en"
    and "\<not> leaves k es" and "unat (missed_heartbeats en) + ages es < unat (sys_threshold s)"
  shows "\<exists>en'. lookup_node (sys_table s') k = Some en' \<and> info en' = info en \<and> session_id en' = session_id en"
proof -
  let ?ops = "concat (map (event_op (sys_threshold s)) es)"
  have "table_inv (sys_table s)" using assms(2) by (simp add: sys_inv_def service_inv_def)
  moreover have "DeregisterOp k \<notin> set ?ops" using assms(4) ops_of_events(2) by blast
  moreover have "\<And>m'. SweepOp m' \<in> set ?ops \<Longrightarrow> sys_threshold s \<le> m'"
    using ops_of_events(3) by blast
  moreover have "unat (missed_heartbeats en) + increments ?ops < unat (sys_threshold s)"
    using assms(5) by (simp only: increments_event_op)
  ultimately show ?thesis
    using nt.stays_registered [of "sys_table s" k en ?ops "sys_threshold s"] assms(3)
    unfolding steps_table [OF assms(1)] by blast
qed

lemma evicted_run:
  assumes "steps sys_step s es s'" and "sys_inv s" and "\<not> beats k es" and "\<not> commits k es"
    and "unat (sys_threshold s) \<le> ages es" and "sys_threshold s \<noteq> 0" and "sys_pc s' \<noteq> HC_Sweep"
  shows "lookup_node (sys_table s') k = None"
proof (rule ccontr)
  assume "lookup_node (sys_table s') k \<noteq> None"
  then obtain en' where en': "lookup_node (sys_table s') k = Some en'" by auto
  have "sys_inv s'" using assms(1,2) by (rule registry.steps_inv)
  with en' assms(6,7) have "missed_heartbeats en' < sys_threshold s'"
    by (auto simp: sys_inv_def entries_all_def age_ok_def age_limit_def steps_threshold [OF assms(1)])
  moreover obtain en :: NodeEntry
    where "unat (missed_heartbeats en') = unat (missed_heartbeats en) + ages es"
    using silent_run [OF assms(1-4) en'] by blast
  ultimately show False
    using assms(5) by (simp add: word_less_nat_alt steps_threshold [OF assms(1)])
qed

section \<open>Shutdown\<close>

text \<open>The service never starts running again, and a new Register never gets past the check.\<close>

definition draining :: "registry_sys \<Rightarrow> bool" where
  "draining s \<longleftrightarrow> \<not> rs_is_running (sys_service s)"

lemma draining_step:
  "sys_step s e s' \<Longrightarrow> draining s \<Longrightarrow> draining s' \<and> set (sys_pending s') \<subseteq> set (sys_pending s)"
  by (induction rule: sys_step.induct)
    (auto simp: draining_def Register_check_Inr Shutdown_eq with_table_def dest: subsetD [OF set_remove1_subset])

lemma dom_step_no_commit:
  assumes "sys_inv s" and "sys_step s e s'" and "\<And>i rnd now. e \<noteq> EvRegisterCommit i rnd now"
  shows "dom (lookup_node (sys_table s')) \<subseteq> dom (lookup_node (sys_table s))"
  using sys_absent_step [OF assms(1,2)] assms(3) by (auto simp: commits_def domIff) (metis option.exhaust)

lemma drained_run:
  assumes "steps sys_step s es s'" and "sys_inv s" and "draining s" and "sys_pending s = []"
  shows "draining s' \<and> sys_pending s' = [] \<and>
         dom (lookup_node (sys_table s')) \<subseteq> dom (lookup_node (sys_table s))"
  using assms
proof (induction rule: steps.induct)
  case (steps_Nil s)
  then show ?case by simp
next
  case (steps_Cons s e s' es s'')
  have "draining s'" "sys_pending s' = []"
    using draining_step [OF steps_Cons.hyps(1)] steps_Cons.prems by auto
  moreover have "dom (lookup_node (sys_table s')) \<subseteq> dom (lookup_node (sys_table s))"
    using steps_Cons.prems(3)
    by (intro dom_step_no_commit [OF steps_Cons.prems(1) steps_Cons.hyps(1)])
      (use steps_Cons.hyps(1) in \<open>auto elim: sys_step.cases\<close>)
  moreover have "sys_inv s'" using steps_Cons.prems(1) steps_Cons.hyps(1) by (rule registry.inv_step)
  ultimately show ?case using steps_Cons.IH by blast
qed

section \<open>Stopping the checker\<close>

text \<open>Steps of the checker's thread, and how many it can still take once a stop is requested.\<close>

definition checker_event :: "sys_event \<Rightarrow> bool" where
  "checker_event e \<longleftrightarrow> e \<in> {EvTest, EvWake, EvRecheck, EvIncrement, EvSweep, EvCount}"

fun stop_rank :: "hc_pc \<Rightarrow> nat" where
  "stop_rank HC_Increment = 4"
| "stop_rank HC_Sweep = 3"
| "stop_rank HC_Count = 2"
| "stop_rank HC_Sleep = 2"
| "stop_rank HC_Recheck = 1"
| "stop_rank HC_Test = 1"
| "stop_rank HC_Exited = 0"
| "stop_rank HC_None = 0"

definition checker_events :: "sys_event list \<Rightarrow> nat" where
  "checker_events es = length (filter checker_event es)"

text \<open>While the join is pending nothing restarts the thread.\<close>

lemma stopping_step:
  assumes "sys_step s e s'" and "sys_inv s" and "sys_stop_requested s" and "e \<noteq> EvJoined"
  shows "sys_stop_requested s' \<and>
         stop_rank (sys_pc s') + (if checker_event e then 1 else 0) = stop_rank (sys_pc s)"
proof -
  have "thread_ok s" using assms(2) by (simp add: sys_inv_def)
  with assms(1,3,4) show ?thesis
    by (induction rule: sys_step.induct)
      (auto simp: checker_event_def thread_ok_def with_table_def)
qed

lemma stopping_run:
  assumes "steps sys_step s es s'" and "sys_inv s" and "sys_stop_requested s" and "EvJoined \<notin> set es"
  shows "stop_rank (sys_pc s') + checker_events es = stop_rank (sys_pc s)"
  using assms
proof (induction rule: steps.induct)
  case (steps_Nil s)
  then show ?case by (simp add: checker_events_def)
next
  case (steps_Cons s e s' es s'')
  have "sys_inv s'" using steps_Cons.prems(1) steps_Cons.hyps(1) by (rule registry.inv_step)
  moreover have "sys_stop_requested s' \<and>
      stop_rank (sys_pc s') + (if checker_event e then 1 else 0) = stop_rank (sys_pc s)"
    using stopping_step [OF steps_Cons.hyps(1) steps_Cons.prems(1,2)] steps_Cons.prems(3) by auto
  ultimately show ?case using steps_Cons.IH steps_Cons.prems(3) by (auto simp: checker_events_def)
qed

lemma stopping_not_none:
  assumes "steps sys_step s es s'" and "sys_inv s" and "sys_stop_requested s" and "EvJoined \<notin> set es"
  shows "sys_pc s' \<noteq> HC_None"
proof -
  have "sys_stop_requested s'"
    using assms(1,2,3)
    by (rule registry.steps_stable) (use assms(4) stopping_step in blast)
  moreover have "thread_ok s'" using registry.steps_inv [OF assms(1,2)] by (simp add: sys_inv_def)
  ultimately show ?thesis by (auto simp: thread_ok_def)
qed

text \<open>The thread is never stuck before it has left the loop.\<close>

lemma checker_progress:
  assumes "sys_pc s \<noteq> HC_None" and "sys_pc s \<noteq> HC_Exited"
  shows "\<exists>e. checker_event e \<and> (\<exists>s'. sys_step s e s')"
proof -
  have "\<exists>s'. sys_step s e s'" if "(sys_pc s, e) \<in> {(HC_Test, EvTest), (HC_Sleep, EvWake),
      (HC_Recheck, EvRecheck), (HC_Increment, EvIncrement), (HC_Sweep, EvSweep), (HC_Count, EvCount)}" for e
    using that by (auto simp: step_simps)
  then show ?thesis
    using assms by (cases "sys_pc s") (auto simp: checker_event_def)
qed

section \<open>Executable form of the step relation\<close>

text \<open>An event determines the step: \<open>sys_next\<close> computes it, None where the event is not enabled.\<close>

fun sys_next :: "registry_sys \<Rightarrow> sys_event \<Rightarrow> registry_sys option" where
  "sys_next s (EvRegisterBegin req) =
     (case Register_check req RegisterResponse_default (sys_service s) of
        Inl _ \<Rightarrow> Some s
      | Inr i \<Rightarrow> Some (s\<lparr>sys_pending := i # sys_pending s\<rparr>))"
| "sys_next s (EvRegisterCommit i rnd now) =
     (if i \<in> set (sys_pending s) then
        Some (s\<lparr>sys_pending := remove1 i (sys_pending s),
          sys_service := service_of (Register_commit i RegisterResponse_default rnd now (sys_service s))\<rparr>)
      else None)"
| "sys_next s (EvHeartbeat req now) =
     Some (s\<lparr>sys_service := service_of (Heartbeat req HeartbeatResponse_default now (sys_service s))\<rparr>)"
| "sys_next s (EvDeregister req) =
     Some (s\<lparr>sys_service := service_of (Deregister req DeregisterResponse_default (sys_service s))\<rparr>)"
| "sys_next s (EvDiscover req) = Some s"
| "sys_next s EvShutdown = Some (s\<lparr>sys_service := Shutdown (sys_service s)\<rparr>)"
| "sys_next s EvStart =
     (if hc_is_running (sys_checker s) then Some (s\<lparr>sys_checker := HealthChecker_start (sys_checker s)\<rparr>)
      else if sys_pc s = HC_None then
        Some (s\<lparr>sys_checker := HealthChecker_start (sys_checker s), sys_pc := HC_Test\<rparr>)
      else None)"
| "sys_next s EvStop =
     (if hc_is_running (sys_checker s) then
        Some (s\<lparr>sys_checker := (sys_checker s)\<lparr>hc_is_running := False,
            hc_thread := request_stop (hc_thread (sys_checker s))\<rparr>\<rparr>)
      else Some s)"
| "sys_next s EvJoined =
     (if sys_pc s = HC_Exited \<and> \<not> hc_is_running (sys_checker s) then
        Some (s\<lparr>sys_checker := (sys_checker s)\<lparr>hc_thread := join (hc_thread (sys_checker s))\<rparr>,
          sys_pc := HC_None\<rparr>)
      else None)"
| "sys_next s EvTest =
     (if sys_pc s = HC_Test
      then Some (s\<lparr>sys_pc := (if sys_stop_requested s then HC_Exited else HC_Sleep)\<rparr>) else None)"
| "sys_next s EvWake = (if sys_pc s = HC_Sleep then Some (s\<lparr>sys_pc := HC_Recheck\<rparr>) else None)"
| "sys_next s EvRecheck =
     (if sys_pc s = HC_Recheck
      then Some (s\<lparr>sys_pc := (if sys_stop_requested s then HC_Exited else HC_Increment)\<rparr>) else None)"
| "sys_next s EvIncrement =
     (if sys_pc s = HC_Increment
      then Some (with_table increment_all_missed_heartbeats s\<lparr>sys_pc := HC_Sweep\<rparr>) else None)"
| "sys_next s EvSweep =
     (if sys_pc s = HC_Sweep
      then Some (with_table (\<lambda>t. snd (remove_stale_nodes (sys_threshold s) t)) s\<lparr>sys_pc := HC_Count\<rparr>)
      else None)"
| "sys_next s EvCount = (if sys_pc s = HC_Count then Some (s\<lparr>sys_pc := HC_Test\<rparr>) else None)"

lemma sys_next_step: "sys_next s e = Some s' \<Longrightarrow> sys_step s e s'"
  by (cases e) (auto simp: step_simps intro: sys_step.intros split: sum.splits if_splits)

lemma sys_step_next: "sys_step s e s' \<Longrightarrow> sys_next s e = Some s'"
  by (induction rule: sys_step.induct) simp_all

lemma sys_step_iff: "sys_step s e s' \<longleftrightarrow> sys_next s e = Some s'"
  using sys_next_step sys_step_next by blast

fun sys_run :: "registry_sys \<Rightarrow> sys_event list \<Rightarrow> registry_sys option" where
  "sys_run s [] = Some s"
| "sys_run s (e # es) = (case sys_next s e of None \<Rightarrow> None | Some s' \<Rightarrow> sys_run s' es)"

lemma steps_sys_run: "steps sys_step s es s' \<Longrightarrow> sys_run s es = Some s'"
  by (induction rule: steps.induct) (simp_all add: sys_step_iff)

lemma sys_run_steps: "sys_run s es = Some s' \<Longrightarrow> steps sys_step s es s'"
proof (induction es arbitrary: s)
  case Nil
  then show ?case by (simp add: steps_Nil)
next
  case (Cons e es)
  then obtain u where "sys_next s e = Some u" and "sys_run u es = Some s'"
    by (auto split: option.splits)
  with Cons.IH show ?case by (blast intro: steps_Cons sys_next_step)
qed

lemma sys_run_reachable: "sys_run (sys_init n i m) es = Some s \<Longrightarrow> sys_reachable s"
  by (rule reach_steps [OF sys_run_steps reach_init]) auto

section \<open>Properties\<close>

text \<open>C6: In every state the registry can reach, under every interleaving of RPC handlers, the health
  checker and shutdown: keys are distinct and every entry is filed under its own id, no node has an
  empty id, the number of nodes is within the configured capacity, and the 32-bit count the server
  reports is the true number of nodes.\<close>

theorem registry_reachable_safe:
  assumes "sys_reachable s"
  shows "table_inv (sys_table s) \<and> lookup_node (sys_table s) [] = None \<and>
         card (dom (lookup_node (sys_table s))) \<le> unat (nt_max_nodes (sys_table s)) \<and>
         unat (get_node_count (sys_table s)) = card (dom (lookup_node (sys_table s)))"
proof -
  have "sys_inv s" using assms by (rule registry.reach_inv)
  then have inv: "table_inv (sys_table s)" and "lookup_node (sys_table s) [] = None"
    by (simp_all add: sys_inv_def service_inv_def)
  moreover have len: "length (nt_nodes (sys_table s)) \<le> unat (nt_max_nodes (sys_table s))"
    using inv by (simp add: table_inv_def)
  moreover have "unat (nt_max_nodes (sys_table s)) < 2 ^ 32"
    using unsigned_less [of "nt_max_nodes (sys_table s)"] by simp
  ultimately show ?thesis
    by (simp add: card_dom_lookup_node get_node_count_def unat_of_nat)
qed

definition demo_events :: "sys_event list" where
  "demo_events =
     [EvRegisterBegin (demo_register ''a''), EvStart, EvTest, EvRegisterCommit (demo_node ''a'') 42 5]"

definition demo_tick :: "sys_event list" where
  "demo_tick = [EvWake, EvRecheck, EvIncrement, EvSweep, EvCount, EvTest]"

definition demo_sys :: registry_sys where
  "demo_sys = the (sys_run (sys_init 2 1000 3) demo_events)"

lemma demo_sys_run: "sys_run (sys_init 2 1000 3) demo_events = Some demo_sys"
proof -
  have "sys_run (sys_init 2 1000 3) demo_events \<noteq> None" by code_simp
  then show ?thesis by (simp add: demo_sys_def)
qed

lemma demo_sys_reachable: "sys_reachable demo_sys"
  using demo_sys_run by (rule sys_run_reachable)

theorem registry_reachable_safe_witness:
  "lookup_node (sys_table demo_sys) ''a'' \<noteq> None \<and>
   unat (get_node_count (sys_table demo_sys)) = card (dom (lookup_node (sys_table demo_sys)))"
proof -
  have "lookup_node (sys_table demo_sys) ''a'' \<noteq> None" by code_simp
  with registry_reachable_safe [OF demo_sys_reachable] show ?thesis by blast
qed

text \<open>C4: Every concurrent execution of the registry is linearizable: whatever interleaving of
  handlers and health checker steps a run from the initial state takes, the table it ends with
  holds exactly what the abstract directory holds after the calls' table operations executed one
  after the other in the order of the run.\<close>

theorem registry_linearizable:
  assumes "steps sys_step (sys_init n i m) es s"
  shows "lookup_node (sys_table s) =
         snd (dir_run (unat n) (concat (map (event_op m) es)) Map.empty)"
proof -
  let ?t = "sys_table (sys_init n i m)"
  have t: "table_inv ?t" "lookup_node ?t = Map.empty" "nt_max_nodes ?t = n"
    "sys_threshold (sys_init n i m) = m"
    by (simp_all add: sys_init_def RegistryServiceImpl_new_def HealthChecker_new_def)
      (simp_all add: NodeTable_new_def lookup_node_def um_find_def fun_eq_iff)
  have "sys_table s = snd (table_run (concat (map (event_op m) es)) ?t)"
    using steps_table [OF assms] t(4) by (simp add: snd_table_run)
  with table_run_refines [OF t(1), of "concat (map (event_op m) es)"] t show ?thesis by simp
qed

theorem registry_linearizable_witness:
  "steps sys_step (sys_init 2 1000 3) demo_events demo_sys \<and>
   snd (dir_run 2 (concat (map (event_op 3) demo_events)) Map.empty) ''a'' \<noteq> None"
proof -
  have st: "steps sys_step (sys_init 2 1000 3) demo_events demo_sys"
    using demo_sys_run by (rule sys_run_steps)
  have "lookup_node (sys_table demo_sys) ''a'' \<noteq> None" by code_simp
  with registry_linearizable [OF st] st show ?thesis by simp
qed



text \<open>C2: Failed nodes are evicted. In any run from a reachable state that contains at least as many
  health-check increments as the (non-zero) threshold, in which node k neither heartbeats nor
  registers, k is not in the table at the end, provided the run does not stop inside a tick
  between the increment and the removal. No wrap-around of the 32-bit counter can save it.\<close>

theorem silent_nodes_are_evicted:
  assumes "sys_reachable s" and "steps sys_step s es s'"
    and "\<not> beats k es" and "\<not> commits k es"
    and "unat (sys_threshold s) \<le> ages es" and "sys_threshold s \<noteq> 0" and "sys_pc s' \<noteq> HC_Sweep"
  shows "lookup_node (sys_table s') k = None"
  using assms(2) registry.reach_inv [OF assms(1)] assms(3-7) by (rule evicted_run)

theorem silent_nodes_are_evicted_witness:
  "lookup_node (sys_table demo_sys) ''a'' \<noteq> None \<and>
   (\<exists>s'. steps sys_step demo_sys (demo_tick @ demo_tick @ demo_tick) s' \<and>
         lookup_node (sys_table s') ''a'' = None)"
proof -
  let ?es = "demo_tick @ demo_tick @ demo_tick"
  have pc: "map_option sys_pc (sys_run demo_sys ?es) = Some HC_Sleep" by code_simp
  then obtain s' where r: "sys_run demo_sys ?es = Some s'" and p: "sys_pc s' = HC_Sleep" by auto
  have st: "steps sys_step demo_sys ?es s'" using r by (rule sys_run_steps)
  have b: "\<not> beats ''a'' ?es" "\<not> commits ''a'' ?es"
    by (simp_all add: beats_def commits_def demo_tick_def)
  have th: "sys_threshold demo_sys = 3" by code_simp
  have "unat (sys_threshold demo_sys) \<le> ages ?es" by (simp add: th demo_tick_def)
  moreover have "sys_threshold demo_sys \<noteq> 0" by (simp add: th)
  ultimately have "lookup_node (sys_table s') ''a'' = None"
    using silent_nodes_are_evicted [OF demo_sys_reachable st b] p by simp
  moreover have "lookup_node (sys_table demo_sys) ''a'' \<noteq> None" by code_simp
  ultimately show ?thesis using st by blast
qed

text \<open>C27: The 32-bit missed-heartbeat counter never wraps in the running system: whenever the health
  checker increments it from a reachable state, every node stays in the table and its counter grows
  by exactly one as a number.\<close>

theorem counters_never_wrap:
  assumes "sys_reachable s" and "sys_step s EvIncrement s'"
    and "lookup_node (sys_table s) k = Some en"
  shows "\<exists>en'. lookup_node (sys_table s') k = Some en' \<and>
           unat (missed_heartbeats en') = unat (missed_heartbeats en) + 1"
proof -
  have inv: "sys_inv s" using assms(1) by (rule registry.reach_inv)
  then have "table_inv (sys_table s)" by (simp add: sys_inv_def service_inv_def)
  then have "lookup_node (sys_table s') k = Some (bump_entry en)"
    using assms(3) by (simp add: sys_step_table [OF assms(2)] nt.lookup_inc)
  moreover from silent_step [OF inv assms(2,3) _ _ this]
  have "unat (missed_heartbeats (bump_entry en)) = unat (missed_heartbeats en) + 1"
    by (simp add: beats_def commits_def)
  ultimately show ?thesis by blast
qed

theorem counters_never_wrap_witness:
  "\<exists>s s' en'. sys_reachable s \<and> sys_step s EvIncrement s' \<and>
     lookup_node (sys_table s') ''a'' = Some en' \<and> unat (missed_heartbeats en') = 1"
proof -
  let ?es = "demo_events @ [EvWake, EvRecheck]"
  have "sys_run (sys_init 2 1000 3) ?es \<noteq> None" by code_simp
  then obtain s where r: "sys_run (sys_init 2 1000 3) ?es = Some s" by blast
  have "map_option (\<lambda>s. lookup_node (sys_table s) ''a'') (sys_run (sys_init 2 1000 3) ?es) =
      Some (Some (fresh_entry (demo_node ''a'') ''a_42'' 5))" by code_simp
  with r have en: "lookup_node (sys_table s) ''a'' = Some (fresh_entry (demo_node ''a'') ''a_42'' 5)"
    by simp
  have "map_option sys_pc (sys_run (sys_init 2 1000 3) ?es) = Some HC_Increment" by code_simp
  with r have "sys_pc s = HC_Increment" by simp
  then obtain s' where s': "sys_step s EvIncrement s'" by (auto simp: step_simps)
  have rs: "sys_reachable s" using r by (rule sys_run_reachable)
  from counters_never_wrap [OF rs s' en] s' rs show ?thesis
    by (auto simp: fresh_entry_def)
qed

text \<open>Shutdown drains. Once the service has been shut down and the Register calls that were
  already past the running check have finished, the service stays shut down and the set of
  registered nodes can only shrink, whatever else happens.\<close>

lemma shutdown_drains:
  assumes "sys_reachable s" and "\<not> rs_is_running (sys_service s)" and "sys_pending s = []"
    and "steps sys_step s es s'"
  shows "\<not> rs_is_running (sys_service s') \<and> sys_pending s' = [] \<and>
         dom (lookup_node (sys_table s')) \<subseteq> dom (lookup_node (sys_table s))"
  using drained_run [OF assms(4) registry.reach_inv [OF assms(1)]] assms(2,3)
  by (simp add: draining_def)

text \<open>C28: Stopping the health checker terminates. From the moment the stop is requested, whatever
  the other threads do, the checker's thread takes at most four more steps before it has left its
  loop, and until it has left it always has a step to take, so the join returns.\<close>

theorem health_checker_stop_terminates:
  assumes "sys_reachable s" and "sys_stop_requested s" and "steps sys_step s es s'"
    and "EvJoined \<notin> set es"
  shows "checker_events es \<le> 4 \<and>
         (sys_pc s' = HC_Exited \<or> (\<exists>e. checker_event e \<and> (\<exists>s''. sys_step s' e s'')))"
proof -
  have inv: "sys_inv s" using assms(1) by (rule registry.reach_inv)
  have "stop_rank (sys_pc s') + checker_events es = stop_rank (sys_pc s)"
    using assms(3) inv assms(2,4) by (rule stopping_run)
  moreover have "stop_rank (sys_pc s) \<le> 4" by (cases "sys_pc s") simp_all
  moreover have "sys_pc s' \<noteq> HC_None"
    using stopping_not_none [OF assms(3) inv assms(2,4)] .
  ultimately show ?thesis using checker_progress [of s'] by auto
qed

theorem health_checker_stop_terminates_witness:
  "\<exists>s s'. sys_reachable s \<and> sys_stop_requested s \<and>
     steps sys_step s [EvIncrement, EvSweep, EvCount, EvTest] s' \<and>
     checker_events [EvIncrement, EvSweep, EvCount, EvTest] \<le> 4"
proof -
  let ?es = "demo_events @ [EvWake, EvRecheck, EvStop]" and ?fs = "[EvIncrement, EvSweep, EvCount, EvTest]"
  have p: "map_option (\<lambda>s. hc_thread (sys_checker s)) (sys_run (sys_init 2 1000 3) ?es) = Some (Joinable True)"
    by code_simp
  then obtain s where r: "sys_run (sys_init 2 1000 3) ?es = Some s" and q: "sys_stop_requested s" by auto
  have "sys_run (the (sys_run (sys_init 2 1000 3) ?es)) ?fs \<noteq> None" by code_simp
  with r obtain s' where "sys_run s ?fs = Some s'" by auto
  then have st: "steps sys_step s ?fs s'" by (rule sys_run_steps)
  have rs: "sys_reachable s" using r by (rule sys_run_reachable)
  have "EvJoined \<notin> set ?fs" by simp
  then have "checker_events ?fs \<le> 4"
    using health_checker_stop_terminates [OF rs q st] by simp
  with rs q st show ?thesis by (intro exI conjI)
qed

end
