(* ===== verification/Registry_Server.thy ===== *)
theory Registry_Server
  imports Registry_System
begin

text \<open>
  The process of \<^verbatim>\<open>examples/registry_server.cpp\<close>: the main thread builds the service, the health
  checker and the gRPC server, waits for a signal and takes everything down in order, while clients call
  the service and the health checker's thread runs. The steps of the registry are those of
  \<open>Registry_System\<close>; here is which of them the process allows when.
\<close>

section \<open>State\<close>

text \<open>The statement the main thread executes next, and the ways the process ends.\<close>

datatype server_pc =
    SP_Build | SP_StartChecker | SP_Signals | SP_Wait | SP_ServiceShutdown | SP_ServerShutdown
  | SP_ServerDrain | SP_ServerWait | SP_StopChecker | SP_JoinChecker | SP_Count | SP_LoggerShutdown
  | SP_Returned | SP_Crashed | SP_Killed

record server_process =
  sp_bind_address :: string
  sp_sys :: registry_sys
  sp_server :: server_state
  sp_g_running :: bool
  sp_main :: server_pc
  sp_final :: "u32 option"

text \<open>\<^verbatim>\<open>argv\<close> with the program's name first.\<close>

definition server_bind_address :: "string list \<Rightarrow> string" where
  "server_bind_address argv = (if length argv > 1 then argv ! 1 else ''0.0.0.0:50051'')"

definition server_sys :: registry_sys where
  "server_sys = sys_init 10000 1000 3"

definition server_init :: "string list \<Rightarrow> server_process" where
  "server_init argv =
     \<lparr>sp_bind_address = server_bind_address argv, sp_sys = server_sys, sp_server = Sv_Unbuilt,
      sp_g_running = True, sp_main = SP_Build, sp_final = None\<rparr>"

section \<open>Steps\<close>

text \<open>
  The result of \<^verbatim>\<open>BuildAndStart\<close>, the next statement of main, a signal, and a step of the registry by a
  handler or by the checker's thread.
\<close>

datatype server_event = SvBuild bool | SvMain | SvSignal | SvRegistry sys_event

text \<open>A step of the registry that main takes itself.\<close>

definition main_calls :: "sys_event \<Rightarrow> server_pc \<Rightarrow> server_process \<Rightarrow> server_process option" where
  "main_calls e pc s = map_option (\<lambda>y. s\<lparr>sp_sys := y, sp_main := pc\<rparr>) (sys_next (sp_sys s) e)"

definition server_main :: "server_process \<Rightarrow> server_process option" where
  "server_main s =
     (case sp_main s of
        SP_StartChecker \<Rightarrow> main_calls EvStart SP_Signals s
      | SP_Signals \<Rightarrow> Some (s\<lparr>sp_main := SP_Wait\<rparr>)
      | SP_Wait \<Rightarrow> Some (if sp_g_running s then s else s\<lparr>sp_main := SP_ServiceShutdown\<rparr>)
      | SP_ServiceShutdown \<Rightarrow> main_calls EvShutdown SP_ServerShutdown s
      | SP_ServerShutdown \<Rightarrow>
          Some (if sp_server s = Sv_Null then s\<lparr>sp_main := SP_Crashed\<rparr>
                else s\<lparr>sp_server := Sv_Shutdown, sp_main := SP_ServerDrain\<rparr>)
      | SP_ServerDrain \<Rightarrow> if sys_pending (sp_sys s) = [] then Some (s\<lparr>sp_main := SP_ServerWait\<rparr>) else None
      | SP_ServerWait \<Rightarrow> Some (s\<lparr>sp_main := SP_StopChecker\<rparr>)
      | SP_StopChecker \<Rightarrow> main_calls EvStop SP_JoinChecker s
      | SP_JoinChecker \<Rightarrow> main_calls EvJoined SP_Count s
      | SP_Count \<Rightarrow> Some (s\<lparr>sp_final := Some (get_node_count (sys_table (sp_sys s))), sp_main := SP_LoggerShutdown\<rparr>)
      | SP_LoggerShutdown \<Rightarrow> Some (s\<lparr>sp_main := SP_Returned\<rparr>)
      | _ \<Rightarrow> None)"

text \<open>Calls of clients; the second half of a Register belongs to a handler that is already running.\<close>

fun client_event :: "sys_event \<Rightarrow> bool" where
  "client_event (EvRegisterBegin req) = True"
| "client_event (EvHeartbeat req now) = True"
| "client_event (EvDeregister req) = True"
| "client_event (EvDiscover req) = True"
| "client_event _ = False"

fun commit_event :: "sys_event \<Rightarrow> bool" where
  "commit_event (EvRegisterCommit i rnd now) = True"
| "commit_event _ = False"

definition ended :: "server_process \<Rightarrow> bool" where
  "ended s \<longleftrightarrow> sp_main s \<in> {SP_Returned, SP_Crashed, SP_Killed}"

text \<open>Before the handlers are installed, a signal kills the process. While the server drains, a call that it
  has accepted before may still run.\<close>

fun server_next :: "server_process \<Rightarrow> server_event \<Rightarrow> server_process option" where
  "server_next s (SvBuild ok) =
     (if sp_main s = SP_Build
      then Some (s\<lparr>sp_server := (if ok then Sv_Serving else Sv_Null), sp_main := SP_StartChecker\<rparr>) else None)"
| "server_next s SvMain = server_main s"
| "server_next s SvSignal =
     (if ended s then None
      else if sp_main s \<in> {SP_Build, SP_StartChecker, SP_Signals} then Some (s\<lparr>sp_main := SP_Killed\<rparr>)
      else Some (s\<lparr>sp_g_running := False\<rparr>))"
| "server_next s (SvRegistry e) =
     (if ended s then None
      else if client_event e \<and> (sp_server s = Sv_Serving \<or> sp_main s = SP_ServerDrain) \<or>
              commit_event e \<or> checker_event e
      then map_option (\<lambda>y. s\<lparr>sp_sys := y\<rparr>) (sys_next (sp_sys s) e) else None)"

abbreviation server_step :: "server_process \<Rightarrow> server_event \<Rightarrow> server_process \<Rightarrow> bool" where
  "server_step s e s' \<equiv> server_next s e = Some s'"

abbreviation server_reachable :: "server_process \<Rightarrow> bool" where
  "server_reachable \<equiv> reach (\<lambda>s. \<exists>argv. s = server_init argv) server_step"

section \<open>The invariant\<close>

fun server_phase :: "server_pc \<Rightarrow> nat" where
  "server_phase SP_Build = 0"
| "server_phase SP_StartChecker = 1"
| "server_phase SP_Signals = 2"
| "server_phase SP_Wait = 3"
| "server_phase SP_ServiceShutdown = 4"
| "server_phase SP_ServerShutdown = 5"
| "server_phase SP_Crashed = 5"
| "server_phase SP_Killed = 0"
| "server_phase SP_ServerDrain = 6"
| "server_phase SP_ServerWait = 7"
| "server_phase SP_StopChecker = 8"
| "server_phase SP_JoinChecker = 9"
| "server_phase SP_Count = 10"
| "server_phase SP_LoggerShutdown = 11"
| "server_phase SP_Returned = 12"

definition server_phase_ok :: "server_process \<Rightarrow> bool" where
  "server_phase_ok s \<longleftrightarrow>
     (let p = server_phase (sp_main s); y = sp_sys s
      in (sp_main s = SP_Crashed \<longrightarrow> sp_server s = Sv_Null) \<and>
         (sp_main s = SP_Build \<longrightarrow> sp_server s = Sv_Unbuilt) \<and>
         (1 \<le> p \<longrightarrow> sp_server s \<noteq> Sv_Unbuilt) \<and>
         (p \<le> 1 \<longrightarrow> sp_main s \<noteq> SP_Killed \<longrightarrow> sys_pc y = HC_None) \<and>
         (2 \<le> p \<and> p \<le> 8 \<longrightarrow> hc_is_running (sys_checker y)) \<and>
         (4 \<le> p \<longrightarrow> \<not> sp_g_running s) \<and>
         (5 \<le> p \<longrightarrow> draining y) \<and>
         (6 \<le> p \<longrightarrow> sp_server s = Sv_Shutdown) \<and>
         (7 \<le> p \<longrightarrow> sys_pending y = []) \<and>
         (p = 9 \<longrightarrow> sys_stop_requested y) \<and>
         (10 \<le> p \<longrightarrow> sys_pc y = HC_None) \<and>
         (11 \<le> p \<longrightarrow> sp_final s = Some (get_node_count (sys_table y))))"

definition server_inv :: "server_process \<Rightarrow> bool" where
  "server_inv s \<longleftrightarrow>
     sys_inv (sp_sys s) \<and> nt_max_nodes (sys_table (sp_sys s)) = 10000 \<and> server_phase_ok s"

lemma sys_step_max:
  assumes "sys_step y e y'"
  shows "nt_max_nodes (sys_table y') = nt_max_nodes (sys_table y)"
proof -
  have "nt_max_nodes (fold table_step ops t) = nt_max_nodes t" for ops t
    by (induction ops arbitrary: t) (simp_all add: table_step_def)
  then show ?thesis using sys_step_table [OF assms] by simp
qed

lemma server_inv_init: "server_inv (server_init argv)"
  by (simp add: server_inv_def server_init_def server_sys_def sys_inv_init server_phase_ok_def)
    (simp add: sys_init_def RegistryServiceImpl_new_def NodeTable_new_def)

text \<open>What a handler or the checker's thread changes of the registry.\<close>

lemma registry_frame:
  assumes "sys_next y e = Some y'" and "client_event e \<or> commit_event e \<or> checker_event e"
  shows "sys_checker y' = sys_checker y \<and> (draining y \<longrightarrow> draining y') \<and>
         (sys_pc y = HC_None \<longrightarrow> sys_pc y' = HC_None) \<and>
         (draining y \<longrightarrow> sys_pending y = [] \<longrightarrow> sys_pending y' = []) \<and>
         (commit_event e \<longrightarrow> sys_pending y \<noteq> []) \<and>
         (checker_event e \<longrightarrow> sys_pc y \<noteq> HC_None)"
proof -
  have "sys_checker y' = sys_checker y" "sys_pc y = HC_None \<longrightarrow> sys_pc y' = HC_None"
    "commit_event e \<longrightarrow> sys_pending y \<noteq> []" "checker_event e \<longrightarrow> sys_pc y \<noteq> HC_None"
    using assms by (cases e; auto simp: checker_event_def with_table_def split: if_splits sum.splits)+
  then show ?thesis using draining_step [OF sys_next_step [OF assms(1)]] by auto
qed

lemma registry_event_inv:
  assumes "server_inv s" and "server_step s (SvRegistry e) s'"
  shows "server_inv s'"
proof -
  obtain y where y: "sys_next (sp_sys s) e = Some y" "s' = s\<lparr>sp_sys := y\<rparr>" "\<not> ended s"
      "client_event e \<and> (sp_server s = Sv_Serving \<or> sp_main s = SP_ServerDrain) \<or> commit_event e \<or> checker_event e"
    using assms(2) by (auto split: if_splits)
  have inv: "sys_inv (sp_sys s)" "nt_max_nodes (sys_table (sp_sys s)) = 10000" "server_phase_ok s"
    using assms(1) by (simp_all add: server_inv_def)
  have fr: "sys_checker y = sys_checker (sp_sys s)" "draining (sp_sys s) \<longrightarrow> draining y"
      "sys_pc (sp_sys s) = HC_None \<longrightarrow> sys_pc y = HC_None"
      "draining (sp_sys s) \<longrightarrow> sys_pending (sp_sys s) = [] \<longrightarrow> sys_pending y = []"
      "commit_event e \<longrightarrow> sys_pending (sp_sys s) \<noteq> []" "checker_event e \<longrightarrow> sys_pc (sp_sys s) \<noteq> HC_None"
    using registry_frame [OF y(1)] y(4) by blast+
  have "\<not> 11 \<le> server_phase (sp_main s)"
  proof
    assume p: "11 \<le> server_phase (sp_main s)"
    then have "sp_server s = Sv_Shutdown" "sys_pending (sp_sys s) = []" "sys_pc (sp_sys s) = HC_None"
      using inv(3) by (simp_all add: server_phase_ok_def Let_def)
    moreover have "sp_main s \<noteq> SP_ServerDrain" using p by auto
    ultimately show False using fr(5,6) y(4) by simp
  qed
  then have "server_phase_ok s'"
    using inv(3) fr y(2) by (simp add: server_phase_ok_def Let_def)
  moreover have "sys_inv y" "nt_max_nodes (sys_table y) = 10000"
    using registry.inv_step [OF inv(1) sys_next_step [OF y(1)]] sys_step_max [OF sys_next_step [OF y(1)]] inv(2) by simp_all
  ultimately show ?thesis by (simp add: server_inv_def y(2))
qed

text \<open>The registry steps that main takes.\<close>

lemma main_calls_inv:
  assumes "sys_inv (sp_sys s)" and "nt_max_nodes (sys_table (sp_sys s)) = 10000" and "main_calls e pc s = Some s'"
  shows "sys_inv (sp_sys s') \<and> nt_max_nodes (sys_table (sp_sys s')) = 10000"
  using assms(3) registry.inv_step [OF assms(1)] sys_step_max assms(2)
  by (auto simp: main_calls_def dest: sys_next_step)

lemma server_main_phase:
  assumes "sys_inv (sp_sys s)" and "server_phase_ok s" and "server_main s = Some s'"
  shows "server_phase_ok s'"
proof -
  have t: "thread_ok (sp_sys s)" using assms(1) by (simp add: sys_inv_def)
  show ?thesis
  proof (cases "sp_main s")
    case SP_StartChecker
    with assms(2,3) t show ?thesis
      by (auto simp: server_main_def main_calls_def server_phase_ok_def Let_def HealthChecker_start_def atomic_exchange_def
          thread_ok_def split: if_splits)
  next
    case SP_ServiceShutdown
    with assms(2,3) show ?thesis
      by (auto simp: server_main_def main_calls_def server_phase_ok_def Let_def draining_def Shutdown_eq)
  next
    case SP_StopChecker
    with assms(2,3) t show ?thesis
      by (auto simp: server_main_def main_calls_def server_phase_ok_def Let_def draining_def thread_ok_def)
  next
    case SP_JoinChecker
    with assms(2,3) show ?thesis
      by (auto simp: server_main_def main_calls_def server_phase_ok_def Let_def draining_def split: if_splits)
  qed (use assms(2,3) in \<open>auto simp: server_main_def server_phase_ok_def Let_def split: if_splits\<close>)
qed

lemma server_inv_step:
  assumes "server_inv s" and "server_step s e s'"
  shows "server_inv s'"
proof (cases e)
  case (SvRegistry r)
  with assms show ?thesis by (blast intro: registry_event_inv)
next
  case SvMain
  have inv: "sys_inv (sp_sys s)" "nt_max_nodes (sys_table (sp_sys s)) = 10000" "server_phase_ok s"
    using assms(1) by (simp_all add: server_inv_def)
  have m: "server_main s = Some s'" using assms(2) SvMain by simp
  have "sys_inv (sp_sys s') \<and> nt_max_nodes (sys_table (sp_sys s')) = 10000"
    using m inv(1,2) main_calls_inv [OF inv(1,2)]
    by (auto simp: server_main_def split: server_pc.splits if_splits)
  then show ?thesis using server_main_phase [OF inv(1,3) m] by (simp add: server_inv_def)
next
  case (SvBuild ok)
  with assms show ?thesis by (auto simp: server_inv_def server_phase_ok_def Let_def split: if_splits)
next
  case SvSignal
  with assms(2) have "s' = s\<lparr>sp_main := SP_Killed\<rparr> \<or> s' = s\<lparr>sp_g_running := False\<rparr>"
    by (auto split: if_splits)
  then show ?thesis
  proof
    assume "s' = s\<lparr>sp_main := SP_Killed\<rparr>"
    with assms(1) show ?thesis by (simp add: server_inv_def server_phase_ok_def)
  next
    assume "s' = s\<lparr>sp_g_running := False\<rparr>"
    with assms(1) show ?thesis by (simp add: server_inv_def server_phase_ok_def Let_def)
  qed
qed

interpretation server: transition_invariant "\<lambda>s. \<exists>argv. s = server_init argv" server_step server_inv
  by unfold_locales (auto intro: server_inv_init server_inv_step)

section \<open>Shutting the registry server down\<close>

text \<open>From the moment the gRPC server has drained, no step adds a node.\<close>

definition after_drain :: "server_process \<Rightarrow> server_process \<Rightarrow> bool" where
  "after_drain s0 s \<longleftrightarrow>
     7 \<le> server_phase (sp_main s) \<and>
     dom (lookup_node (sys_table (sp_sys s))) \<subseteq> dom (lookup_node (sys_table (sp_sys s0)))"

lemma drained_sys_step:
  assumes "sys_inv y" and "sys_next y e = Some y'" and "draining y" and "sys_pending y = []"
  shows "dom (lookup_node (sys_table y')) \<subseteq> dom (lookup_node (sys_table y))"
proof -
  have "steps sys_step y [e] y'"
    by (rule steps_Cons, rule sys_next_step, rule assms(2), rule steps_Nil)
  from drained_run [OF this assms(1,3,4)] show ?thesis by simp
qed

lemma server_main_table:
  assumes "server_main s = Some s'"
  shows "sp_sys s' = sp_sys s \<or> (\<exists>e. sys_next (sp_sys s) e = Some (sp_sys s'))"
proof -
  have "\<exists>e. sys_next (sp_sys s) e = Some (sp_sys s')" if "main_calls e pc s = Some s'" for e pc
    using that by (auto simp: main_calls_def simp del: sys_next.simps)
  with assms show ?thesis
    by (cases "sp_main s") (auto simp: server_main_def split: if_splits)
qed

lemma server_main_forward:
  "server_main s = Some s' \<Longrightarrow> 7 \<le> server_phase (sp_main s) \<Longrightarrow> 7 \<le> server_phase (sp_main s')"
  by (cases "sp_main s") (auto simp: server_main_def main_calls_def split: if_splits)

lemma after_drain_step:
  assumes "server_inv s" and "server_step s e s'" and "after_drain s0 s"
  shows "after_drain s0 s'"
proof -
  have p: "7 \<le> server_phase (sp_main s)" using assms(3) by (simp add: after_drain_def)
  then have d: "sys_inv (sp_sys s)" "draining (sp_sys s)" "sys_pending (sp_sys s) = []"
    using assms(1) by (simp_all add: server_inv_def server_phase_ok_def Let_def)
  have sub: "dom (lookup_node (sys_table y)) \<subseteq> dom (lookup_node (sys_table (sp_sys s)))"
    if "sys_next (sp_sys s) r = Some y" for r y
    using drained_sys_step [OF d(1) that d(2,3)] .
  have "7 \<le> server_phase (sp_main s') \<and> (sp_sys s' = sp_sys s \<or> (\<exists>r. sys_next (sp_sys s) r = Some (sp_sys s')))"
  proof (cases e)
    case SvMain
    with assms(2) p show ?thesis using server_main_forward server_main_table by simp
  qed (use assms(2) p in \<open>auto split: if_splits\<close>)
  with assms(3) sub show ?thesis unfolding after_drain_def by (metis subset_trans)
qed

text \<open>C9: The registry server shuts down in order, under every interleaving of clients, health checker and
  signal. When the program returns, the service refuses registrations, the gRPC server is shut down with
  no Register call in progress, the health checker is stopped and its thread joined, the count that is
  logged is the exact number of nodes still registered, at most 10000, and every one of these nodes was
  already registered when the gRPC server had drained.\<close>

theorem registry_server_shuts_down:
  assumes "server_reachable s" and "sp_main s = SP_ServerWait"
    and "steps server_step s es s'" and "sp_main s' = SP_Returned"
  shows "\<not> is_running (sys_service (sp_sys s')) \<and> sp_server s' = Sv_Shutdown \<and> sys_pending (sp_sys s') = [] \<and>
         \<not> HealthChecker_is_running (sys_checker (sp_sys s')) \<and>
         hc_thread (sys_checker (sp_sys s')) = NotJoinable \<and>
         (\<exists>n. sp_final s' = Some n \<and> unat n = card (dom (lookup_node (sys_table (sp_sys s')))) \<and> unat n \<le> 10000) \<and>
         dom (lookup_node (sys_table (sp_sys s'))) \<subseteq> dom (lookup_node (sys_table (sp_sys s)))"
proof -
  let ?t = "sys_table (sp_sys s')"
  have inv: "server_inv s" using assms(1) by (rule server.reach_inv)
  then have inv': "server_inv s'" using assms(3) by (blast intro: server.steps_inv)
  have "after_drain s s" using assms(2) by (simp add: after_drain_def)
  with assms(3) inv have "after_drain s s'"
    by (rule server.steps_stable) (rule after_drain_step)
  then have nodes: "dom (lookup_node ?t) \<subseteq> dom (lookup_node (sys_table (sp_sys s)))" by (simp add: after_drain_def)
  have ok: "draining (sp_sys s')" "sp_server s' = Sv_Shutdown" "sys_pending (sp_sys s') = []" "sys_pc (sp_sys s') = HC_None"
      "sp_final s' = Some (get_node_count ?t)"
    using inv' assms(4) by (simp_all add: server_inv_def server_phase_ok_def Let_def)
  moreover have "thread_ok (sp_sys s')" and t: "table_inv ?t" "nt_max_nodes ?t = 10000"
    using inv' by (simp_all add: server_inv_def sys_inv_def service_inv_def)
  ultimately have "hc_thread (sys_checker (sp_sys s')) = NotJoinable" "\<not> hc_is_running (sys_checker (sp_sys s'))"
    by (simp_all add: thread_ok_def)
  moreover have len: "length (nt_nodes ?t) \<le> 10000" using t by (simp add: table_inv_def)
  then have "unat (get_node_count ?t) = length (nt_nodes ?t)" by (simp add: get_node_count_def unat_of_nat)
  ultimately show ?thesis
    using ok nodes t(1) len
    by (simp add: is_running_def draining_def HealthChecker_is_running_def card_dom_lookup_node)
qed

section \<open>Progress\<close>

fun server_own :: "server_event \<Rightarrow> bool" where
  "server_own (SvRegistry e) = (commit_event e \<or> checker_event e)"
| "server_own SvSignal = False"
| "server_own _ = True"

lemma own_registry_step:
  assumes "\<not> ended s" and "commit_event e \<or> checker_event e" and "sys_next (sp_sys s) e = Some y"
  shows "\<exists>e s'. server_own e \<and> server_step s e s'"
  using assms by (intro exI [of _ "SvRegistry e"]) auto

lemma own_main_step: "server_main s = Some s' \<Longrightarrow> \<exists>e s'. server_own e \<and> server_step s e s'"
  by (intro exI [of _ SvMain]) simp

lemma server_progress:
  assumes inv: "server_inv s" and alive: "\<not> ended s"
  shows "\<exists>e s'. server_own e \<and> server_step s e s'"
proof (cases "server_main s")
  case (Some s')
  then show ?thesis by (rule own_main_step)
next
  case None
  have ok: "server_phase_ok s" "thread_ok (sp_sys s)" using inv by (simp_all add: server_inv_def sys_inv_def)
  have start: "sp_main s = SP_StartChecker \<Longrightarrow> sys_next (sp_sys s) EvStart \<noteq> None"
    using ok(1) by (simp add: server_phase_ok_def)
  from None alive start consider (build) "sp_main s = SP_Build"
    | (drain) "sp_main s = SP_ServerDrain" "sys_pending (sp_sys s) \<noteq> []"
    | (join) "sp_main s = SP_JoinChecker" "sys_next (sp_sys s) EvJoined = None"
    by (cases "sp_main s") (auto simp: server_main_def main_calls_def ended_def split: if_splits)
  then show ?thesis
  proof cases
    case build
    then show ?thesis by (intro exI [of _ "SvBuild True"]) simp
  next
    case drain
    then obtain i where "i \<in> set (sys_pending (sp_sys s))" by (meson list.set_sel(1))
    then have "\<exists>y. sys_next (sp_sys s) (EvRegisterCommit i 0 0) = Some y" by simp
    with own_registry_step [OF alive, of "EvRegisterCommit i 0 0"] show ?thesis by auto
  next
    case join
    then have "sys_stop_requested (sp_sys s)" using ok(1) by (simp add: server_phase_ok_def Let_def)
    with join(2) ok(2) have "sys_pc (sp_sys s) \<noteq> HC_None" "sys_pc (sp_sys s) \<noteq> HC_Exited"
      by (auto simp: thread_ok_def split: if_splits)
    from checker_progress [OF this] show ?thesis
      using own_registry_step [OF alive] by (auto simp: sys_step_iff)
  qed
qed

lemma server_phase_le: "server_phase p \<le> 12"
  by (cases p) simp_all

text \<open>How many statements main still executes after the signal.\<close>

definition main_rank :: "server_process \<Rightarrow> nat" where
  "main_rank s = (if ended s then 0 else 12 - server_phase (sp_main s))"

lemma main_rank_step:
  assumes "server_step s e s'" and "\<not> sp_g_running s"
  shows "\<not> sp_g_running s' \<and> main_rank s' + (if e = SvMain then 1 else 0) \<le> main_rank s"
proof (cases e)
  case SvMain
  with assms show ?thesis
    by (cases "sp_main s")
      (auto simp: server_main_def main_calls_def main_rank_def ended_def split: if_splits)
qed (use assms in \<open>auto simp: main_rank_def ended_def split: if_splits\<close>)

lemma main_rank_run:
  assumes "steps server_step s es s'" and "\<not> sp_g_running s"
  shows "main_rank s' + length (filter (\<lambda>e. e = SvMain) es) \<le> main_rank s"
  using assms by (induction rule: steps.induct) (fastforce dest!: main_rank_step split: if_splits)+


section \<open>A concrete run\<close>

fun server_run :: "server_process \<Rightarrow> server_event list \<Rightarrow> server_process option" where
  "server_run s [] = Some s"
| "server_run s (e # es) = (case server_next s e of None \<Rightarrow> None | Some s' \<Rightarrow> server_run s' es)"

lemma server_run_steps: "server_run s es = Some s' \<Longrightarrow> steps server_step s es s'"
  by (induction es arbitrary: s) (auto split: option.splits intro: steps.intros)

lemma server_run_reachable: "server_run (server_init argv) es = Some s \<Longrightarrow> server_reachable s"
  by (rule reach_steps [OF server_run_steps reach_init]) auto

text \<open>A node registers while the server comes up; after the signal the server drains and the checker is
  stopped.\<close>

definition demo_serving :: "server_event list" where
  "demo_serving =
     [SvBuild True, SvRegistry (EvRegisterBegin (demo_register ''a'')), SvMain, SvMain, SvRegistry EvTest,
      SvSignal, SvMain, SvRegistry (EvRegisterCommit (demo_node ''a'') 42 5), SvMain, SvMain, SvMain]"

definition demo_stopping :: "server_event list" where
  "demo_stopping = [SvMain, SvMain, SvRegistry EvWake, SvRegistry EvRecheck, SvMain, SvMain, SvMain]"

lemma demo_server_run:
  "\<exists>s s'. server_run (server_init [''registry'']) demo_serving = Some s \<and> sp_main s = SP_ServerWait \<and>
     \<not> sp_g_running s \<and> server_run s demo_stopping = Some s' \<and> sp_main s' = SP_Returned \<and> map_option unat (sp_final s') = Some 1"
proof -
  let ?r = "server_run (server_init [''registry'']) demo_serving"
  have "map_option (\<lambda>s. (sp_main s, sp_g_running s)) ?r = Some (SP_ServerWait, False)" by code_simp
  moreover have "map_option (\<lambda>s. (sp_main s, map_option unat (sp_final s))) (server_run (the ?r) demo_stopping) =
      Some (SP_Returned, Some 1)" by code_simp
  ultimately show ?thesis by (cases ?r) auto
qed

theorem registry_server_shuts_down_witness:
  "\<exists>s s'. server_reachable s \<and> steps server_step s demo_stopping s' \<and> sp_main s' = SP_Returned \<and>
     card (dom (lookup_node (sys_table (sp_sys s')))) = 1"
proof -
  obtain s s' where s: "server_run (server_init [''registry'']) demo_serving = Some s" "sp_main s = SP_ServerWait"
      "server_run s demo_stopping = Some s'" "sp_main s' = SP_Returned" "map_option unat (sp_final s') = Some 1"
    using demo_server_run by blast
  note r = server_run_reachable [OF s(1)] server_run_steps [OF s(3)]
  from registry_server_shuts_down [OF r(1) s(2) r(2) s(4)] s(5)
  have "card (dom (lookup_node (sys_table (sp_sys s')))) = 1" by auto
  then show ?thesis by (intro exI conjI) (rule r(1), rule r(2), rule s(4))
qed


end
