(* ===== verification/Backoff.thy ===== *)
theory Backoff
  imports Drocm_Prelude
begin

text \<open>
  The contract of an exponential backoff: attempt \<open>n\<close> (counted from one, up to a limit) waits
  \<open>base * 2 ^ (n - 1)\<close> milliseconds, cut off at a cap. Three places of the program implement it:
  the node base class, the LIDAR node's heartbeat thread and the LIDAR node's streaming loop. Each
  interprets this locale on its own definition.
\<close>

locale exponential_backoff =
  fixes delay :: "nat \<Rightarrow> nat"
    and base :: nat
    and cap :: nat
    and limit :: nat
  assumes delay_eq: "1 \<le> n \<Longrightarrow> n \<le> limit \<Longrightarrow> delay n = min (base * 2 ^ (n - 1)) cap"
begin

lemma delay_le_cap: "1 \<le> n \<Longrightarrow> n \<le> limit \<Longrightarrow> delay n \<le> cap"
  by (simp add: delay_eq)

lemma delay_first: "1 \<le> limit \<Longrightarrow> delay 1 = min base cap"
  by (simp add: delay_eq)

lemma delay_mono:
  assumes "1 \<le> n" and "n \<le> n'" and "n' \<le> limit"
  shows "delay n \<le> delay n'"
proof -
  have "(2 :: nat) ^ (n - 1) \<le> 2 ^ (n' - 1)" using assms by (intro power_increasing) auto
  then have "base * 2 ^ (n - 1) \<le> base * 2 ^ (n' - 1)" by (rule mult_left_mono) simp
  then have "min (base * 2 ^ (n - 1)) cap \<le> min (base * 2 ^ (n' - 1)) cap" by (rule min.mono) simp
  with assms show ?thesis using delay_eq [of n] delay_eq [of n'] by simp
qed

lemma delay_doubles:
  assumes "1 \<le> n" and "Suc n \<le> limit" and "2 * (base * 2 ^ (n - 1)) \<le> cap"
  shows "delay (Suc n) = 2 * delay n"
proof -
  have "(2 :: nat) ^ n = 2 * 2 ^ (n - 1)" using assms(1) by (cases n) simp_all
  with assms show ?thesis by (simp add: delay_eq)
qed

text \<open>Waiting through all attempts takes at most the limit times the cap.\<close>

lemma total_delay: "(\<Sum>n \<in> {1..limit}. delay n) \<le> limit * cap"
  using sum_bounded_above [of "{1..limit}" delay cap] by (simp add: delay_le_cap)

end

end
