(* ===== verification/Node_Base.thy ===== *)
theory Node_Base
  imports Messages Backoff
begin

text \<open>
  \<^verbatim>\<open>src/node/node_base.h\<close> and \<^verbatim>\<open>node_base.cpp\<close>: the base class of a node. The remote calls
  through the gRPC stub are code outside the repository: each is an argument, a function from the
  request, the response object passed in and the state of the world behind the stub to the status,
  the response object afterwards and the new world. The virtual methods of the derived class and
  the clock are inputs of each loop iteration. Smart pointers are booleans (set or null) and
  dereferencing a null one is the error \<open>NullDeref\<close>.
\<close>

section \<open>Reconnection strategy\<close>

record ReconnectStrategy =
  base_delay_ms :: u32
  max_delay_ms :: u32
  max_attempts :: u32
  enable_backoff :: bool

definition ReconnectStrategy_default :: ReconnectStrategy where
  "ReconnectStrategy_default =
     \<lparr>base_delay_ms = 1000, max_delay_ms = 30000, max_attempts = 10, enable_backoff = True\<rparr>"

text \<open>The loop \<^verbatim>\<open>for (uint32_t i = 1; i < attempt; ++i) delay *= 2;\<close>\<close>

function backoff_loop :: "u32 \<Rightarrow> u32 \<Rightarrow> u32 \<Rightarrow> u32" where
  "backoff_loop i attempt delay =
     (if i < attempt then backoff_loop (i + 1) attempt (delay * 2) else delay)"
  by pat_completeness auto
termination
proof (relation "measure (\<lambda>(i, attempt, delay). unat attempt - unat i)")
  fix i attempt delay :: u32
  assume lt: "i < attempt"
  then have "unat (i + 1) = Suc (unat i)" by (rule unat_plus_one_u32)
  with lt show "((i + 1, attempt, delay * 2), i, attempt, delay)
      \<in> measure (\<lambda>(i, attempt, delay). unat attempt - unat i)"
    by (simp add: word_less_nat_alt)
qed simp

declare backoff_loop.simps [simp del]

definition calculate_backoff_delay :: "ReconnectStrategy \<Rightarrow> u32 \<Rightarrow> u32" where
  "calculate_backoff_delay st attempt =
     (if \<not> enable_backoff st then base_delay_ms st
      else min (backoff_loop 1 attempt (base_delay_ms st)) (max_delay_ms st))"

section \<open>State\<close>

datatype node_error = NullDeref

record Node =
  nd_node_id :: string
  nd_registry_address :: string
  nd_session_id :: string
  nd_coro_adapter :: bool
  nd_registry_channel :: bool
  nd_registry_stub :: bool
  nd_heartbeat_thread :: jthread
  nd_is_running :: bool
  nd_is_registered :: bool
  nd_heartbeat_interval_ms :: u32
  nd_reconnect_strategy :: ReconnectStrategy

definition Node_new :: "string \<Rightarrow> string \<Rightarrow> Node" where
  "Node_new nid addr =
     \<lparr>nd_node_id = nid, nd_registry_address = addr, nd_session_id = '''', nd_coro_adapter = True,
      nd_registry_channel = False, nd_registry_stub = False, nd_heartbeat_thread = NotJoinable,
      nd_is_running = False, nd_is_registered = False, nd_heartbeat_interval_ms = 1000,
      nd_reconnect_strategy = ReconnectStrategy_default\<rparr>"

section \<open>start and stop\<close>

text \<open>Move-assigning the new thread asks a previous one to stop and joins it.\<close>

definition Node_start :: "'w register_call \<Rightarrow> NodeInfo \<Rightarrow> Node \<Rightarrow> 'w \<Rightarrow> bool \<times> Node \<times> 'w" where
  "Node_start reg node_info n w =
     (if nd_is_running n then (True, n, w)
      else
        let n1 = n\<lparr>nd_registry_channel := True, nd_registry_stub := True\<rparr>;
            req = RegisterRequest_default\<lparr>rq_node_info := Some node_info\<rparr>;
            (status, resp, w1) = reg req RegisterResponse_default w
        in if \<not> status_ok status \<or> \<not> rr_success resp then (False, n1, w1)
           else
             (True,
              n1\<lparr>nd_session_id := rr_session_id resp,
                 nd_heartbeat_interval_ms := rr_heartbeat_interval resp,
                 nd_is_registered := True,
                 nd_heartbeat_thread := Joinable False,
                 nd_is_running := True\<rparr>, w1))"

text \<open>\<^verbatim>\<open>stop\<close>: the branch on the heartbeat thread has an empty body.\<close>

definition Node_stop :: "'w deregister_call \<Rightarrow> Node \<Rightarrow> 'w \<Rightarrow> node_error + Node \<times> 'w" where
  "Node_stop dereg n w =
     (if \<not> nd_is_running n then Inr (n, w)
      else
        let r = (if nd_is_registered n then
                   if \<not> nd_registry_stub n then Inl NullDeref
                   else
                     let req = DeregisterRequest_default\<lparr>dq_node_id := nd_node_id n\<rparr>;
                         (status, resp, w1) = dereg req DeregisterResponse_default w
                     in Inr (n\<lparr>nd_is_registered := False\<rparr>, w1)
                 else Inr (n, w))
        in case r of
             Inl e \<Rightarrow> Inl e
           | Inr (n1, w1) \<Rightarrow>
               if \<not> nd_coro_adapter n1 then Inl NullDeref
               else Inr (n1\<lparr>nd_coro_adapter := False, nd_registry_stub := False,
                            nd_registry_channel := False, nd_is_running := False\<rparr>, w1))"

definition Node_is_running :: "Node \<Rightarrow> bool" where
  "Node_is_running n = nd_is_running n"

text \<open>\<^verbatim>\<open>return *coro_adapter_;\<close>\<close>

definition get_coro_adapter :: "Node \<Rightarrow> node_error + unit" where
  "get_coro_adapter n = (if nd_coro_adapter n then Inr () else Inl NullDeref)"

definition get_registry_channel :: "Node \<Rightarrow> bool" where
  "get_registry_channel n = nd_registry_channel n"

definition get_registry_stub :: "Node \<Rightarrow> bool" where
  "get_registry_stub n = nd_registry_stub n"

text \<open>The destructor: stop, then the thread member asks its thread to stop and joins it.\<close>

definition Node_destroy :: "'w deregister_call \<Rightarrow> Node \<Rightarrow> 'w \<Rightarrow> node_error + Node \<times> 'w" where
  "Node_destroy dereg n w =
     (case Node_stop dereg n w of
        Inl e \<Rightarrow> Inl e
      | Inr (n1, w1) \<Rightarrow>
          Inr (n1\<lparr>nd_heartbeat_thread := join (request_stop (nd_heartbeat_thread n1))\<rparr>, w1))"

section \<open>The heartbeat loop\<close>

text \<open>What one iteration observes: the two reads of the stop token, the wall clock in
  milliseconds, the payload and the node info of the derived class.\<close>

record hb_obs =
  ob_stop_before :: bool
  ob_stop_after :: bool
  ob_timestamp :: u64
  ob_payload :: "float32 \<times> float32 \<times> u32"
  ob_node_info :: NodeInfo

text \<open>What the loop does besides the remote calls: sleeps and the two virtual callbacks.\<close>

datatype hb_action =
    SleepFor u32
  | OnReconnected
  | OnReconnectAttempt u32 u32

datatype loop_ctl = Continue | Break

text \<open>
  The body of the loop from the heartbeat request on. \<open>a\<close> is \<^verbatim>\<open>reconnect_attempts\<close>. The result is
  whether the loop goes on, the node, the attempt counter, the world and the actions.
\<close>

definition heartbeat_body ::
    "'w heartbeat_call \<Rightarrow> 'w register_call \<Rightarrow> hb_obs \<Rightarrow> Node \<Rightarrow> u32 \<Rightarrow> 'w
     \<Rightarrow> node_error + loop_ctl \<times> Node \<times> u32 \<times> 'w \<times> hb_action list" where
  "heartbeat_body hb reg ob n a w =
     (if \<not> nd_registry_stub n then Inl NullDeref
      else
        let (cpu, mem, conn) = ob_payload ob;
            req = HeartbeatRequest_default\<lparr>hq_node_id := nd_node_id n, hq_session_id := nd_session_id n,
                    hq_timestamp := ob_timestamp ob, hq_cpu_usage := cpu, hq_memory_usage := mem,
                    hq_active_connections := conn\<rparr>;
            (status, resp, w1) = hb req HeartbeatResponse_default w
        in if status_ok status \<and> hr_success resp then
             if a > 0 then Inr (Continue, n, 0, w1, [OnReconnected])
             else Inr (Continue, n, a, w1, [])
           else if hr_should_reconnect resp then
             if a < max_attempts (nd_reconnect_strategy n) then
               let a' = a + 1;
                   delay_ms = calculate_backoff_delay (nd_reconnect_strategy n) a';
                   acts = [OnReconnectAttempt a' delay_ms, SleepFor delay_ms];
                   reg_req = RegisterRequest_default\<lparr>rq_node_info := Some (ob_node_info ob)\<rparr>;
                   (reg_status, reg_resp, w2) = reg reg_req RegisterResponse_default w1
               in if status_ok reg_status \<and> rr_success reg_resp then
                    Inr (Continue,
                         n\<lparr>nd_session_id := rr_session_id reg_resp,
                           nd_heartbeat_interval_ms := rr_heartbeat_interval reg_resp,
                           nd_is_registered := True\<rparr>, a', w2, acts)
                  else Inr (Continue, n, a', w2, acts)
             else Inr (Break, n, a, w1, [])
           else Inr (Continue, n, a, w1, []))"

text \<open>How a run of the loop ended: still running when the observations end, left because a stop
  was seen, left because it gave up.\<close>

datatype loop_exit = StillRunning | Stopped | GaveUp

fun heartbeat_loop ::
    "'w heartbeat_call \<Rightarrow> 'w register_call \<Rightarrow> hb_obs list \<Rightarrow> Node \<Rightarrow> u32 \<Rightarrow> 'w
     \<Rightarrow> node_error + loop_exit \<times> Node \<times> u32 \<times> 'w \<times> hb_action list" where
  "heartbeat_loop hb reg [] n a w = Inr (StillRunning, n, a, w, [])"
| "heartbeat_loop hb reg (ob # obs) n a w =
     (if ob_stop_before ob then Inr (Stopped, n, a, w, [])
      else
        let slept = [SleepFor (nd_heartbeat_interval_ms n)] in
        if ob_stop_after ob then Inr (Stopped, n, a, w, slept)
        else case heartbeat_body hb reg ob n a w of
               Inl e \<Rightarrow> Inl e
             | Inr (Break, n1, a1, w1, acts) \<Rightarrow> Inr (GaveUp, n1, a1, w1, slept @ acts)
             | Inr (Continue, n1, a1, w1, acts) \<Rightarrow>
                 (case heartbeat_loop hb reg obs n1 a1 w1 of
                    Inl e \<Rightarrow> Inl e
                  | Inr (x, n2, a2, w2, acts2) \<Rightarrow> Inr (x, n2, a2, w2, slept @ acts @ acts2)))"

section \<open>The backoff delay\<close>

lemma backoff_loop_eq:
  "backoff_loop i attempt delay = delay * 2 ^ (unat attempt - unat i)"
proof (induction i attempt delay rule: backoff_loop.induct)
  case (1 i attempt delay)
  show ?case
  proof (cases "i < attempt")
    case True
    then have u: "unat (i + 1) = Suc (unat i)" by (rule unat_plus_one_u32)
    have "unat attempt - unat i = Suc (unat attempt - Suc (unat i))"
      using True by (simp add: word_less_nat_alt)
    with "1.IH" [OF True] True u show ?thesis
      by (simp add: backoff_loop.simps [of i] mult.assoc)
  next
    case False
    then show ?thesis by (simp add: backoff_loop.simps [of i] word_less_nat_alt)
  qed
qed

lemma unat_pow2_mult:
  assumes "unat (b :: u32) * 2 ^ k < 2 ^ 32"
  shows "unat (b * 2 ^ k) = unat b * 2 ^ k"
  using assms
proof (induction k)
  case 0
  then show ?case by simp
next
  case (Suc k)
  have "unat b * 2 ^ k * 2 < 2 ^ 32" using Suc.prems by (simp add: ac_simps)
  then have IH: "unat (b * 2 ^ k) = unat b * 2 ^ k" using Suc.IH by linarith
  have "b * 2 ^ Suc k = (b * 2 ^ k) * 2" by (simp add: ac_simps)
  moreover have "unat ((b * 2 ^ k) * 2) = unat (b * 2 ^ k) * 2"
    using \<open>unat b * 2 ^ k * 2 < 2 ^ 32\<close> IH by (simp add: unat_word_ariths)
  ultimately show ?case using IH by (simp add: ac_simps)
qed

lemma unat_min_u32: "unat (min (a :: u32) b) = min (unat a) (unat b)"
  by (simp add: min_def word_le_nat_alt)

lemma calculate_backoff_delay_exact:
  assumes "enable_backoff st" and "unat (base_delay_ms st) * 2 ^ (unat attempt - 1) < 2 ^ 32"
  shows "unat (calculate_backoff_delay st attempt) =
         min (unat (base_delay_ms st) * 2 ^ (unat attempt - 1)) (unat (max_delay_ms st))"
  using assms
  by (simp add: calculate_backoff_delay_def backoff_loop_eq unat_min_u32 unat_pow2_mult)

lemma calculate_backoff_delay_wraps:
  assumes "enable_backoff st" and "32 < unat attempt"
  shows "calculate_backoff_delay st attempt = 0"
proof -
  have "(2 :: u32) ^ (unat attempt - 1) = 0" using assms(2) by (simp add: exp_eq_zero_iff)
  then have "backoff_loop 1 attempt (base_delay_ms st) = 0"
    by (simp only: backoff_loop_eq unsigned_1) (rule mult_zero_right)
  with assms(1) show ?thesis by (simp add: calculate_backoff_delay_def)
qed

interpretation node_backoff: exponential_backoff
  "\<lambda>n. unat (calculate_backoff_delay ReconnectStrategy_default (word_of_nat n))" 1000 30000 10
proof (unfold_locales, goal_cases)
  case (1 n)
  have u: "unat (word_of_nat n :: u32) = n" using 1 by (simp add: unat_of_nat)
  have "(2 :: nat) ^ (n - 1) \<le> 2 ^ 9" using 1 by (intro power_increasing) auto
  then have "1000 * (2 :: nat) ^ (n - 1) < 2 ^ 32" by simp
  with calculate_backoff_delay_exact [of ReconnectStrategy_default "word_of_nat n"] u show ?case
    by (simp add: ReconnectStrategy_default_def)
qed

section \<open>Lemmas about the loop\<close>

text \<open>The body keeps the identity, the strategy and the pointers of the node.\<close>

lemma heartbeat_body_frame:
  assumes "heartbeat_body hb reg ob n a w = Inr (c, n', a', w', acts)"
  shows "nd_registry_stub n' = nd_registry_stub n \<and>
         nd_reconnect_strategy n' = nd_reconnect_strategy n \<and> nd_node_id n' = nd_node_id n"
  using assms
  by (auto simp: heartbeat_body_def Let_def split: if_splits prod.splits)

text \<open>The attempts an action list reports.\<close>

fun attempts_in :: "hb_action list \<Rightarrow> (u32 \<times> u32) list" where
  "attempts_in [] = []"
| "attempts_in (OnReconnectAttempt k d # acts) = (k, d) # attempts_in acts"
| "attempts_in (SleepFor d # acts) = attempts_in acts"
| "attempts_in (OnReconnected # acts) = attempts_in acts"

lemma attempts_in_append [simp]: "attempts_in (xs @ ys) = attempts_in xs @ attempts_in ys"
  by (induction xs rule: attempts_in.induct) simp_all

definition attempt_ok :: "ReconnectStrategy \<Rightarrow> u32 \<times> u32 \<Rightarrow> bool" where
  "attempt_ok st kd \<longleftrightarrow>
     0 < fst kd \<and> fst kd \<le> max_attempts st \<and> snd kd = calculate_backoff_delay st (fst kd)"

lemma heartbeat_body_attempts:
  assumes "heartbeat_body hb reg ob n a w = Inr (c, n', a', w', acts)"
    and "a \<le> max_attempts (nd_reconnect_strategy n)"
  shows "a' \<le> max_attempts (nd_reconnect_strategy n) \<and>
         list_all (attempt_ok (nd_reconnect_strategy n)) (attempts_in acts) \<and>
         (c = Break \<longrightarrow> a' = max_attempts (nd_reconnect_strategy n))"
proof -
  have "0 < a + 1 \<and> a + 1 \<le> m" if "a < m" for m :: u32
    using that unat_plus_one_u32 [OF that] by (simp add: inc_le word_less_nat_alt)
  then show ?thesis
    using assms
    by (auto simp: heartbeat_body_def Let_def attempt_ok_def split: if_splits prod.splits)
qed

lemma heartbeat_loop_attempts:
  assumes "heartbeat_loop hb reg obs n a w = Inr (x, n', a', w', acts)"
    and "a \<le> max_attempts (nd_reconnect_strategy n)"
  shows "a' \<le> max_attempts (nd_reconnect_strategy n) \<and>
         list_all (attempt_ok (nd_reconnect_strategy n)) (attempts_in acts) \<and>
         (x = GaveUp \<longrightarrow> a' = max_attempts (nd_reconnect_strategy n))"
  using assms
proof (induction obs arbitrary: n a w acts)
  case Nil
  then show ?case by simp
next
  case (Cons ob obs)
  show ?case
  proof (cases "ob_stop_before ob \<or> ob_stop_after ob")
    case True
    with Cons.prems show ?thesis by (auto split: if_splits)
  next
    case False
    then obtain c n1 a1 w1 acts1 where body: "heartbeat_body hb reg ob n a w = Inr (c, n1, a1, w1, acts1)"
      using Cons.prems(1) by (cases "heartbeat_body hb reg ob n a w") auto
    note b = heartbeat_body_attempts [OF body Cons.prems(2)] and f = heartbeat_body_frame [OF body]
    show ?thesis
    proof (cases c)
      case Break
      with False body Cons.prems(1) b show ?thesis by auto
    next
      case Continue
      with False body Cons.prems(1) obtain acts2 where
        rest: "heartbeat_loop hb reg obs n1 a1 w1 = Inr (x, n', a', w', acts2)"
          "acts = SleepFor (nd_heartbeat_interval_ms n) # acts1 @ acts2"
        by (cases "heartbeat_loop hb reg obs n1 a1 w1") auto
      have "a1 \<le> max_attempts (nd_reconnect_strategy n1)" using b f by simp
      from Cons.IH [OF rest(1) this] rest(2) b f show ?thesis by simp
    qed
  qed
qed

text \<open>A stub that always reports the node as unknown and asks it to reconnect.\<close>

definition always_unknown :: "'w heartbeat_call \<Rightarrow> bool" where
  "always_unknown hb \<longleftrightarrow>
     (\<forall>req resp w. \<not> (status_ok (fst (hb req resp w)) \<and> hr_success (fst (snd (hb req resp w)))) \<and>
                   hr_should_reconnect (fst (snd (hb req resp w))))"

lemma unknown_body:
  assumes "always_unknown hb" and "nd_registry_stub n"
  shows "a < max_attempts (nd_reconnect_strategy n) \<Longrightarrow>
         \<exists>n' w' acts. heartbeat_body hb reg ob n a w = Inr (Continue, n', a + 1, w', acts) \<and>
           attempts_in acts = [(a + 1, calculate_backoff_delay (nd_reconnect_strategy n) (a + 1))]"
    and "\<not> a < max_attempts (nd_reconnect_strategy n) \<Longrightarrow>
         \<exists>w'. heartbeat_body hb reg ob n a w = Inr (Break, n, a, w', [])"
  using assms
  by (auto simp: heartbeat_body_def always_unknown_def Let_def split_beta)

text \<open>The attempts from number \<open>k + 1\<close> to number \<open>m\<close> with their delays.\<close>

definition attempt_schedule :: "ReconnectStrategy \<Rightarrow> nat \<Rightarrow> nat \<Rightarrow> (u32 \<times> u32) list" where
  "attempt_schedule st k m =
     map (\<lambda>j. (word_of_nat j, calculate_backoff_delay st (word_of_nat j))) [Suc k ..< Suc m]"

lemma attempt_schedule_step:
  "k < m \<Longrightarrow> attempt_schedule st k m =
     (word_of_nat (Suc k), calculate_backoff_delay st (word_of_nat (Suc k))) # attempt_schedule st (Suc k) m"
  by (simp add: attempt_schedule_def upt_conv_Cons del: of_nat_Suc upt_Suc)

lemma unknown_gives_up:
  assumes "always_unknown hb" and "nd_registry_stub n"
    and "list_all (\<lambda>ob. \<not> ob_stop_before ob \<and> \<not> ob_stop_after ob) obs"
    and "unat (max_attempts (nd_reconnect_strategy n)) - unat a < length obs"
    and "a \<le> max_attempts (nd_reconnect_strategy n)"
  shows "\<exists>n' w' acts. heartbeat_loop hb reg obs n a w =
           Inr (GaveUp, n', max_attempts (nd_reconnect_strategy n), w', acts) \<and>
           attempts_in acts = attempt_schedule (nd_reconnect_strategy n) (unat a)
             (unat (max_attempts (nd_reconnect_strategy n)))"
  using assms(2-5)
proof (induction obs arbitrary: n a w)
  case Nil
  then show ?case by simp
next
  case (Cons ob obs)
  let ?st = "nd_reconnect_strategy n"
  show ?case
  proof (cases "a < max_attempts ?st")
    case True
    from unknown_body(1) [OF assms(1) Cons.prems(1) True] obtain n1 w1 acts1
      where body: "heartbeat_body hb reg ob n a w = Inr (Continue, n1, a + 1, w1, acts1)"
        and acts1: "attempts_in acts1 = [(a + 1, calculate_backoff_delay ?st (a + 1))]" by blast
    note f = heartbeat_body_frame [OF body]
    have u: "unat (a + 1) = Suc (unat a)" using True by (rule unat_plus_one_u32)
    have w: "word_of_nat (Suc (unat a)) = a + 1" by (simp add: add.commute)
    have "unat (max_attempts (nd_reconnect_strategy n1)) - unat (a + 1) < length obs"
      using Cons.prems(3) True u f by (simp add: word_less_nat_alt)
    moreover have "a + 1 \<le> max_attempts (nd_reconnect_strategy n1)" using True f by (simp add: inc_le)
    ultimately obtain n' w' acts where
      "heartbeat_loop hb reg obs n1 (a + 1) w1 = Inr (GaveUp, n', max_attempts ?st, w', acts)"
      "attempts_in acts = attempt_schedule ?st (unat (a + 1)) (unat (max_attempts ?st))"
      using Cons.IH [of n1 "a + 1" w1] Cons.prems f by auto
    with body acts1 Cons.prems(2) True u w show ?thesis
      by (simp add: attempt_schedule_step [of "unat a"] word_less_nat_alt del: of_nat_Suc)
  next
    case False
    then have "a = max_attempts ?st" using Cons.prems(4) by simp
    moreover obtain w' where "heartbeat_body hb reg ob n a w = Inr (Break, n, a, w', [])"
      using unknown_body(2) [OF assms(1) Cons.prems(1) False] by blast
    ultimately show ?thesis using Cons.prems(2) by (simp add: attempt_schedule_def)
  qed
qed

section \<open>Properties\<close>

text \<open>C30: The reconnection delay. Without backoff it is the base delay. With backoff, attempt number
  n waits the base delay times 2 ^ (n - 1), cut off at the maximum, as long as that product fits
  in 32 bits, and never more than the maximum whatever the numbers; from attempt 33 on the 32-bit
  product has wrapped to zero and there is no wait at all.\<close>

theorem calculate_backoff_delay_correct:
  "(\<not> enable_backoff st \<longrightarrow> calculate_backoff_delay st attempt = base_delay_ms st) \<and>
   (enable_backoff st \<longrightarrow> calculate_backoff_delay st attempt \<le> max_delay_ms st) \<and>
   (enable_backoff st \<longrightarrow> unat (base_delay_ms st) * 2 ^ (unat attempt - 1) < 2 ^ 32 \<longrightarrow>
      unat (calculate_backoff_delay st attempt) =
        min (unat (base_delay_ms st) * 2 ^ (unat attempt - 1)) (unat (max_delay_ms st))) \<and>
   (enable_backoff st \<longrightarrow> 32 < unat attempt \<longrightarrow> calculate_backoff_delay st attempt = 0)"
  using calculate_backoff_delay_exact [of st attempt] calculate_backoff_delay_wraps [of st attempt]
  by (auto simp: calculate_backoff_delay_def)

theorem calculate_backoff_delay_correct_witness:
  "unat (calculate_backoff_delay ReconnectStrategy_default 4) = 8000 \<and>
   unat (calculate_backoff_delay ReconnectStrategy_default 6) = 30000 \<and>
   calculate_backoff_delay ReconnectStrategy_default 33 = 0"
  using calculate_backoff_delay_correct [of ReconnectStrategy_default 4]
    calculate_backoff_delay_correct [of ReconnectStrategy_default 6]
    calculate_backoff_delay_correct [of ReconnectStrategy_default 33]
  by (simp add: ReconnectStrategy_default_def)


definition demo_lost_hb :: "nat heartbeat_call" where
  "demo_lost_hb req resp w = (Status_OK, resp\<lparr>hr_success := False, hr_should_reconnect := True\<rparr>, Suc w)"

definition demo_ok_reg :: "nat register_call" where
  "demo_ok_reg req resp w =
     (Status_OK, resp\<lparr>rr_success := True, rr_session_id := ''s'', rr_heartbeat_interval := 1000\<rparr>, Suc w)"

definition demo_obs :: hb_obs where
  "demo_obs = \<lparr>ob_stop_before = False, ob_stop_after = False, ob_timestamp = 0,
     ob_payload = (0, 0, 0), ob_node_info = NodeInfo_default\<lparr>node_id := ''n''\<rparr>\<rparr>"

definition demo_running_node :: Node where
  "demo_running_node =
     fst (snd (Node_start demo_ok_reg (NodeInfo_default\<lparr>node_id := ''n''\<rparr>) (Node_new ''n'' ''localhost:50051'') 0))"

lemma demo_running_node_fields:
  "nd_registry_stub demo_running_node" "nd_is_running demo_running_node"
  "nd_coro_adapter demo_running_node" "nd_is_registered demo_running_node"
  "nd_reconnect_strategy demo_running_node = ReconnectStrategy_default"
  by (simp_all add: demo_running_node_def Node_start_def demo_ok_reg_def Node_new_def)


text \<open>Registration failures leave a node stopped, successes leave it running: start reports True
  exactly if the node was running already or the registry answered OK with success; then the node
  runs with the session id and the interval of the answer, and a start that fails leaves it
  not running with its session, thread and registration as they were. A running node is left alone
  and sends nothing.\<close>

lemma Node_start_correct:
  assumes "Node_start reg i n w = (r, n', w')"
    and "reg (RegisterRequest_default\<lparr>rq_node_info := Some i\<rparr>) RegisterResponse_default w = (st, resp, w1)"
  shows "(nd_is_running n \<longrightarrow> r \<and> n' = n \<and> w' = w) \<and>
         (\<not> nd_is_running n \<longrightarrow> (r \<longleftrightarrow> status_ok st \<and> rr_success resp) \<and> w' = w1) \<and>
         (r \<longleftrightarrow> nd_is_running n') \<and>
         (\<not> nd_is_running n \<longrightarrow> r \<longrightarrow>
            nd_session_id n' = rr_session_id resp \<and>
            nd_heartbeat_interval_ms n' = rr_heartbeat_interval resp \<and>
            nd_is_registered n' \<and> nd_heartbeat_thread n' = Joinable False) \<and>
         (\<not> r \<longrightarrow>
            nd_session_id n' = nd_session_id n \<and> nd_heartbeat_thread n' = nd_heartbeat_thread n \<and>
            nd_is_registered n' = nd_is_registered n)"
  using assms by (auto simp: Node_start_def Let_def split: if_splits)

text \<open>C40: Stopping a running node drops the registry stub while its heartbeat thread still runs: the
  thread, which nobody asked to stop, dereferences the null stub when it next wakes up, so an
  iteration after a stop never sends a heartbeat but crashes.\<close>

theorem heartbeat_after_stop_crashes:
  assumes "nd_is_running n" and "Node_stop dereg n w = Inr (n', w')"
    and "\<not> ob_stop_before ob" and "\<not> ob_stop_after ob"
  shows "nd_heartbeat_thread n' = nd_heartbeat_thread n \<and>
         heartbeat_loop hb reg (ob # obs) n' a w'' = Inl NullDeref"
  using assms
  by (auto simp: Node_stop_def Let_def heartbeat_body_def split: if_splits prod.splits)

definition demo_dereg :: "nat deregister_call" where
  "demo_dereg req resp w = (Status_OK, resp\<lparr>dr_success := True\<rparr>, Suc w)"

definition demo_stopped_node :: Node where
  "demo_stopped_node =
     demo_running_node\<lparr>nd_is_registered := False, nd_coro_adapter := False, nd_registry_stub := False,
       nd_registry_channel := False, nd_is_running := False\<rparr>"

lemma demo_stop: "Node_stop demo_dereg demo_running_node 0 = Inr (demo_stopped_node, 1)"
  by (simp add: Node_stop_def demo_running_node_fields demo_dereg_def demo_stopped_node_def)

theorem heartbeat_after_stop_crashes_witness:
  "heartbeat_loop demo_lost_hb demo_ok_reg [demo_obs] demo_stopped_node 0 1 = Inl NullDeref"
proof -
  have "\<not> ob_stop_before demo_obs" "\<not> ob_stop_after demo_obs" by (simp_all add: demo_obs_def)
  then show ?thesis
    by (rule heartbeat_after_stop_crashes [OF demo_running_node_fields(2) demo_stop, THEN conjunct2])
qed

text \<open>A node can be stopped only once: after a stop the node can be started again, but it then has
  no coroutine adapter, so asking for the adapter dereferences null and so does the next stop.\<close>

lemma restarted_node_cannot_stop:
  assumes "nd_is_running n" and "Node_stop dereg n w = Inr (n1, w1)"
    and "Node_start reg i n1 w2 = (True, n2, w3)"
  shows "nd_is_running n2 \<and> get_coro_adapter n2 = Inl NullDeref \<and> Node_stop dereg' n2 w4 = Inl NullDeref"
proof -
  have "\<not> nd_is_running n1 \<and> \<not> nd_coro_adapter n1"
    using assms(1,2) by (auto simp: Node_stop_def Let_def split: if_splits prod.splits)
  then have "nd_is_running n2 \<and> \<not> nd_coro_adapter n2 \<and> nd_registry_stub n2"
    using assms(3) by (auto simp: Node_start_def Let_def split: if_splits prod.splits)
  then show ?thesis by (auto simp: get_coro_adapter_def Node_stop_def split_beta)
qed

end
