(* ===== verification/Float64.thy ===== *)
theory Float64
  imports Complex_Main Drocm_Prelude "HOL-Library.Log_Nat"
begin

text \<open>
  The part of C++ \<^verbatim>\<open>double\<close> arithmetic that the metrics and the LIDAR payload use, on the
  rational numbers a finite double denotes: every operation is the exact one followed by rounding
  to the nearest representable number (ties to even), with the subnormal range but without
  overflow, which none of the uses reaches. Fixed-point output (\<^verbatim>\<open>std::fixed\<close> with
  \<^verbatim>\<open>std::setprecision\<close>, and \<^verbatim>\<open>std::to_string\<close> on a double, which has six places) prints the
  exact value rounded to the asked number of places, again ties to even.
\<close>

section \<open>Rounding to an integer\<close>

definition round_even :: "rat \<Rightarrow> int" where
  "round_even x =
     (let f = \<lfloor>x\<rfloor>; d = x - of_int f
      in if d < 1 / 2 then f else if d > 1 / 2 then f + 1 else if even f then f else f + 1)"

lemma round_even_error: "\<bar>of_int (round_even x) - x\<bar> \<le> 1 / 2"
proof -
  have "of_int \<lfloor>x\<rfloor> \<le> x" "x < of_int \<lfloor>x\<rfloor> + 1" by linarith+
  then show ?thesis by (auto simp: round_even_def Let_def abs_le_iff)
qed

lemma round_even_nearest:
  assumes "\<bar>of_int m - x\<bar> < 1 / 2"
  shows "round_even x = m"
proof -
  have "\<bar>of_int (round_even x) - of_int m :: rat\<bar> < 1"
    using assms round_even_error [of x] by linarith
  then have "\<bar>of_int (round_even x - m) :: rat\<bar> < 1" by simp
  then show ?thesis by linarith
qed

lemma round_even_of_int [simp]: "round_even (of_int m) = m"
  by (rule round_even_nearest) simp

lemma round_even_nonneg: "0 \<le> x \<Longrightarrow> 0 \<le> round_even x"
  by (auto simp: round_even_def Let_def)

section \<open>Rounding to a double\<close>

text \<open>\<open>binade x\<close> is the exponent \<open>b\<close> with \<open>2 ^ b \<le> \<bar>x\<bar> < 2 ^ (b + 1)\<close>, computed from the bit
  lengths of numerator and denominator.\<close>

definition binade :: "rat \<Rightarrow> int" where
  "binade x =
     (let (n, d) = quotient_of \<bar>x\<bar>;
          e = bitlen n - bitlen d
      in if 2 powi e \<le> \<bar>x\<bar> then e else e - 1)"

text \<open>The exponent of the unit in the last place: 53 significant bits, not below \<open>-1074\<close>.\<close>

definition ulp_exp :: "rat \<Rightarrow> int" where
  "ulp_exp x = max (binade x - 52) (- 1074)"

definition double_of :: "rat \<Rightarrow> rat" where
  "double_of x =
     (if x = 0 then 0
      else let u = 2 powi ulp_exp x in of_int (round_even (x / u)) * u)"

definition double_mult :: "rat \<Rightarrow> rat \<Rightarrow> rat" where
  "double_mult a b = double_of (a * b)"

definition double_div :: "rat \<Rightarrow> rat \<Rightarrow> rat" where
  "double_div a b = double_of (a / b)"

lemma binade_bounds:
  assumes "x \<noteq> 0"
  shows "2 powi binade x \<le> \<bar>x\<bar>" and "\<bar>x\<bar> < 2 powi (binade x + 1)"
proof -
  obtain n d where q: "quotient_of \<bar>x\<bar> = (n, d)" by fastforce
  then have d: "0 < d" by (rule quotient_of_denom_pos)
  from q have x: "\<bar>x\<bar> = of_int n / of_int d" by (rule quotient_of_div)
  have n: "0 < n"
    using assms x d by (metis abs_le_zero_iff divide_le_0_iff leI of_int_0_less_iff of_int_le_0_iff
        not_less_iff_gr_or_eq)
  define a b where "a = floorlog 2 (nat n)" and "b = floorlog 2 (nat d)"
  have a: "2 ^ (a - 1) \<le> nat n" "nat n < 2 ^ a" "0 < a"
    using floorlog_bounds [of "nat n" 2] n by (auto simp: a_def floorlog_eq_zero_iff intro: gr0I)
  have b: "2 ^ (b - 1) \<le> nat d" "nat d < 2 ^ b" "0 < b"
    using floorlog_bounds [of "nat d" 2] d by (auto simp: b_def floorlog_eq_zero_iff intro: gr0I)
  have n': "2 powi (int a - 1) \<le> (of_int n :: rat)" "(of_int n :: rat) < 2 powi int a"
    using a n by (auto simp: power_int_def nat_diff_distrib' nat_less_numeral_power_cancel_iff
        numeral_power_le_nat_cancel_iff)
  have d': "2 powi (int b - 1) \<le> (of_int d :: rat)" "(of_int d :: rat) < 2 powi int b"
    using b d by (auto simp: power_int_def nat_diff_distrib' nat_less_numeral_power_cancel_iff
        numeral_power_le_nat_cancel_iff)
  have pos: "(0 :: rat) < of_int n" "(0 :: rat) < of_int d" using n d by simp_all
  let ?e = "int a - int b"
  have "\<bar>x\<bar> < 2 powi int a / 2 powi (int b - 1)"
    unfolding x using n' d' pos by (intro frac_less) auto
  also have "2 powi int a / 2 powi (int b - 1) = (2 powi (int a - (int b - 1)) :: rat)"
    by (rule power_int_diff [symmetric]) simp
  finally have hi: "\<bar>x\<bar> < 2 powi (?e + 1)" by (simp add: algebra_simps)
  have "2 powi (int a - 1 - int b) = (2 powi (int a - 1) / 2 powi int b :: rat)"
    by (rule power_int_diff) simp
  also have "2 powi (int a - 1) / 2 powi int b \<le> \<bar>x\<bar>"
    unfolding x using n' d' pos by (intro frac_le) auto
  finally have lo: "2 powi (?e - 1) \<le> \<bar>x\<bar>" by (simp add: algebra_simps)
  have bin: "binade x = (if 2 powi ?e \<le> \<bar>x\<bar> then ?e else ?e - 1)"
    by (simp add: binade_def q a_def b_def bitlen_def)
  show "2 powi binade x \<le> \<bar>x\<bar>" using lo bin by simp
  show "\<bar>x\<bar> < 2 powi (binade x + 1)" using hi bin by (simp split: if_splits)
qed

lemma double_of_zero [simp]: "double_of 0 = 0"
  by (simp add: double_of_def)

text \<open>Rounding moves a value by at most one part in \<open>2 ^ 53\<close>, or by half the smallest
  subnormal.\<close>

lemma double_of_error: "\<bar>double_of x - x\<bar> \<le> \<bar>x\<bar> / 2 ^ 53 + 1 / 2 ^ 1075"
proof (cases "x = 0")
  case False
  define u :: rat where "u = 2 powi ulp_exp x"
  have u: "0 < u" by (simp add: u_def)
  have "double_of x - x = (of_int (round_even (x / u)) - x / u) * u"
    using False u by (simp add: double_of_def u_def [symmetric] algebra_simps)
  then have "\<bar>double_of x - x\<bar> = \<bar>of_int (round_even (x / u)) - x / u\<bar> * u"
    using u by (simp add: abs_mult)
  also have "\<dots> \<le> 1 / 2 * u"
    using round_even_error [of "x / u"] u by (intro mult_right_mono) auto
  also have "1 / 2 * u \<le> \<bar>x\<bar> / 2 ^ 53 + 1 / 2 ^ 1075"
  proof (cases "- 1074 \<le> binade x - 52")
    case True
    have "u = 2 powi (binade x - 52)" unfolding u_def ulp_exp_def max_absorb1 [OF True] ..
    also have "\<dots> = 2 powi binade x / 2 powi 52" by (rule power_int_diff) simp
    also have "\<dots> \<le> \<bar>x\<bar> / 2 powi 52"
      by (rule divide_right_mono [OF binade_bounds(1) [OF False]]) simp
    finally have "1 / 2 * u \<le> \<bar>x\<bar> / 2 ^ 53" by simp
    then show ?thesis by (rule order.trans) simp
  next
    case False
    then have "u = 2 powi (- 1074)" by (simp add: u_def ulp_exp_def max_def)
    then have "1 / 2 * u = 1 / 2 ^ 1075" by (simp add: power_int_minus field_simps)
    then show ?thesis by simp
  qed
  finally show ?thesis .
qed simp

text \<open>A number with at most 53 significant bits after scaling by a power of two is exact.\<close>

lemma double_of_exact:
  assumes "x * 2 ^ k = of_int m" and "\<bar>m\<bar> < 2 ^ 53" and "k \<le> 1074"
  shows "double_of x = x"
proof (cases "x = 0")
  case False
  have "\<bar>x\<bar> * 2 ^ k = of_int \<bar>m\<bar>" using assms(1) by (metis abs_mult abs_numeral of_int_abs power_abs)
  then have "\<bar>x\<bar> * 2 powi int k < 2 powi 53" using assms(2)
    by (simp add: power_int_def)
  moreover have "2 powi binade x * 2 powi int k \<le> \<bar>x\<bar> * 2 powi int k"
    by (rule mult_right_mono [OF binade_bounds(1) [OF False]]) simp
  ultimately have "2 powi binade x * 2 powi int k < (2 powi 53 :: rat)" by linarith
  then have "(2 :: rat) powi (binade x + int k) < 2 powi 53"
    by (simp only: power_int_add [OF disjI1 [OF zero_neq_numeral [symmetric]]])
  then have "binade x + int k < 53"
    using power_int_increasing [of 53 "binade x + int k" "2 :: rat"] by force
  then have "ulp_exp x \<le> - int k" using assms(3) by (simp add: ulp_exp_def)
  then have "0 \<le> - ulp_exp x - int k" by simp
  then obtain j where "- ulp_exp x - int k = int j" using zero_le_imp_eq_int by blast
  then have j: "- ulp_exp x = int k + int j" by simp
  have "x / 2 powi ulp_exp x = x * 2 powi (- ulp_exp x)" by (simp add: power_int_minus field_simps)
  also have "\<dots> = x * 2 ^ k * 2 ^ j" by (simp add: j power_int_add)
  also have "\<dots> = of_int (m * 2 ^ j)" by (simp add: assms(1))
  finally have q: "x / 2 powi ulp_exp x = of_int (m * 2 ^ j)" .
  have "double_of x = of_int (round_even (x / 2 powi ulp_exp x)) * 2 powi ulp_exp x"
    using False by (simp add: double_of_def Let_def)
  also have "\<dots> = x / 2 powi ulp_exp x * 2 powi ulp_exp x" by (simp only: q round_even_of_int)
  finally show ?thesis by simp
qed simp

lemma double_of_int_exact: "\<bar>m\<bar> < 2 ^ 53 \<Longrightarrow> double_of (of_int m) = of_int m"
  using double_of_exact [of "of_int m" 0 m] by simp

lemma double_of_nonneg: "0 \<le> x \<Longrightarrow> 0 \<le> double_of x"
  by (simp add: double_of_def Let_def round_even_nonneg)

section \<open>Fixed-point output\<close>

fun pad_digits :: "nat \<Rightarrow> int \<Rightarrow> string" where
  "pad_digits 0 n = []"
| "pad_digits (Suc p) n = pad_digits p (n div 10) @ [digit_char (nat (n mod 10))]"

definition print_fixed :: "nat \<Rightarrow> rat \<Rightarrow> string" where
  "print_fixed p x =
     (let m = round_even (\<bar>x\<bar> * 10 ^ p)
      in (if x < 0 then ''-'' else '''') @ to_string (m div 10 ^ p) @
         (if p = 0 then '''' else CHR ''.'' # pad_digits p (m mod 10 ^ p)))"

definition parse_fixed :: "string \<Rightarrow> rat" where
  "parse_fixed s =
     (let neg = (s \<noteq> [] \<and> hd s = CHR ''-''); t = (if neg then tl s else s);
          ip = takeWhile (\<lambda>c. c \<noteq> CHR ''.'') t; fp = drop (Suc (length ip)) t;
          v = rat_of_nat (nat_of_digits (ip @ fp)) / 10 ^ length fp
      in if neg then - v else v)"

lemma length_pad_digits [simp]: "length (pad_digits p n) = p"
  by (induction p arbitrary: n) simp_all

lemma nat_of_digits_append_digit:
  "d < 10 \<Longrightarrow> nat_of_digits (s @ [digit_char d]) = 10 * nat_of_digits s + d"
  by (simp add: nat_of_digits_def)

lemma nat_of_digits_pad:
  "0 \<le> n \<Longrightarrow> n < 10 ^ p \<Longrightarrow>
   int (nat_of_digits (s @ pad_digits p n)) = int (nat_of_digits s) * 10 ^ p + n"
proof (induction p arbitrary: n)
  case (Suc p)
  have "n div 10 < 10 ^ p" "0 \<le> n div 10" using Suc.prems by auto
  then have "int (nat_of_digits (s @ pad_digits p (n div 10))) = int (nat_of_digits s) * 10 ^ p + n div 10"
    using Suc.IH by blast
  then show ?case
    using nat_of_digits_append_digit [of "nat (n mod 10)" "s @ pad_digits p (n div 10)"]
    by (simp add: algebra_simps nat_less_iff)
qed simp

lemma dot_not_digit: "CHR ''.'' \<notin> set (digits_of_nat n)"
  using digits_of_nat_set [of "CHR ''.''" n] by auto

lemma parse_print_fixed:
  assumes "0 < p"
  shows "parse_fixed (print_fixed p x) =
         (if x < 0 then - 1 else 1) * of_int (round_even (\<bar>x\<bar> * 10 ^ p)) / 10 ^ p"
proof -
  define m where "m = round_even (\<bar>x\<bar> * 10 ^ p)"
  have m: "0 \<le> m" by (simp add: m_def round_even_nonneg)
  define ip where "ip = digits_of_nat (nat (m div 10 ^ p))"
  define t where "t = ip @ CHR ''.'' # pad_digits p (m mod 10 ^ p)"
  have "to_string (m div 10 ^ p) = ip"
    using m by (simp add: to_string_def ip_def pos_imp_zdiv_neg_iff)
  then have pf: "print_fixed p x = (if x < 0 then CHR ''-'' # t else t)"
    using assms by (simp add: print_fixed_def Let_def m_def [symmetric] t_def)
  have tw: "takeWhile (\<lambda>c. c \<noteq> CHR ''.'') t = ip"
    using dot_not_digit [of "nat (m div 10 ^ p)"] by (auto simp: t_def ip_def takeWhile_append)
  have dr: "drop (Suc (length ip)) t = pad_digits p (m mod 10 ^ p)" "length t = Suc (length ip) + p"
    by (simp_all add: t_def)
  have "int (nat_of_digits (ip @ pad_digits p (m mod 10 ^ p))) = m"
    using div_mult_mod_eq [of m "10 ^ p"] m
    by (simp add: nat_of_digits_pad ip_def pos_imp_zdiv_nonneg_iff)
  then have "rat_of_nat (nat_of_digits (ip @ pad_digits p (m mod 10 ^ p))) = of_int m"
    by (metis of_int_of_nat_eq)
  moreover have "ip \<noteq> []" "hd ip \<noteq> CHR ''-''"
    using minus_not_digit [of "nat (m div 10 ^ p)"] hd_in_set [of ip] unfolding ip_def
    by (metis digits_of_nat_not_Nil)+
  then have "t \<noteq> []" "hd t \<noteq> CHR ''-''" by (auto simp: t_def)
  ultimately show ?thesis
    by (simp add: parse_fixed_def pf tw dr m_def [symmetric] Let_def)
qed

lemma print_fixed_error:
  assumes "0 < p"
  shows "\<bar>parse_fixed (print_fixed p x) - x\<bar> \<le> 1 / (2 * 10 ^ p)"
proof -
  have "\<bar>of_int (round_even (\<bar>x\<bar> * 10 ^ p)) - \<bar>x\<bar> * 10 ^ p\<bar> \<le> 1 / 2" by (rule round_even_error)
  then have "\<bar>of_int (round_even (\<bar>x\<bar> * 10 ^ p)) - \<bar>x\<bar> * 10 ^ p\<bar> / 10 ^ p \<le> 1 / 2 / 10 ^ p"
    by (rule divide_right_mono) simp
  then have "\<bar>of_int (round_even (\<bar>x\<bar> * 10 ^ p)) / 10 ^ p - \<bar>x\<bar>\<bar> \<le> 1 / (2 * 10 ^ p)"
    by (simp add: abs_div_pos diff_divide_distrib flip: abs_divide)
  then show ?thesis unfolding parse_print_fixed [OF assms] by auto
qed

end
