(* ===== verification/Metrics.thy ===== *)
theory Metrics
  imports Float64
begin

text \<open>
  \<^verbatim>\<open>src/utils/metrics.h\<close> and \<^verbatim>\<open>metrics.cpp\<close>: the seven atomic counters of the process, the
  Prometheus text they are exposed as, and the RAII latency timer. The counters are \<^verbatim>\<open>int64_t\<close>
  atomics, whose \<^verbatim>\<open>fetch_add\<close> and \<^verbatim>\<open>fetch_sub\<close> wrap. A \<^verbatim>\<open>double\<close> argument is the rational
  number it denotes; converting one that is out of range to \<^verbatim>\<open>int64_t\<close> is undefined, which is
  None here.
\<close>

section \<open>Counters\<close>

record Metrics =
  nodes_online :: i64
  heartbeat_miss_total :: i64
  messages_sent_total :: i64
  rpc_latency_sum_us :: i64
  rpc_latency_count :: i64
  stream_latency_sum_ms :: i64
  stream_latency_count :: i64

definition Metrics_new :: Metrics where
  "Metrics_new =
     \<lparr>nodes_online = 0, heartbeat_miss_total = 0, messages_sent_total = 0, rpc_latency_sum_us = 0,
      rpc_latency_count = 0, stream_latency_sum_ms = 0, stream_latency_count = 0\<rparr>"

text \<open>\<^verbatim>\<open>static_cast<int64_t>\<close> on a double: truncation toward zero.\<close>

definition to_int64 :: "rat \<Rightarrow> i64 option" where
  "to_int64 x =
     (let k = (if 0 \<le> x then \<lfloor>x\<rfloor> else \<lceil>x\<rceil>)
      in if - (2 ^ 63) \<le> k \<and> k < 2 ^ 63 then Some (word_of_int k) else None)"

definition increment_nodes_online :: "Metrics \<Rightarrow> Metrics" where
  "increment_nodes_online m = m\<lparr>nodes_online := nodes_online m + 1\<rparr>"

definition decrement_nodes_online :: "Metrics \<Rightarrow> Metrics" where
  "decrement_nodes_online m = m\<lparr>nodes_online := nodes_online m - 1\<rparr>"

definition record_rpc_latency_us :: "rat \<Rightarrow> Metrics \<Rightarrow> Metrics option" where
  "record_rpc_latency_us us m =
     (case to_int64 us of
        None \<Rightarrow> None
      | Some k \<Rightarrow>
          let m1 = m\<lparr>rpc_latency_sum_us := rpc_latency_sum_us m + k\<rparr>
          in Some (m1\<lparr>rpc_latency_count := rpc_latency_count m1 + 1\<rparr>))"

definition increment_heartbeat_miss :: "Metrics \<Rightarrow> Metrics" where
  "increment_heartbeat_miss m = m\<lparr>heartbeat_miss_total := heartbeat_miss_total m + 1\<rparr>"

definition increment_messages_sent :: "Metrics \<Rightarrow> Metrics" where
  "increment_messages_sent m = m\<lparr>messages_sent_total := messages_sent_total m + 1\<rparr>"

definition record_stream_latency_ms :: "rat \<Rightarrow> Metrics \<Rightarrow> Metrics option" where
  "record_stream_latency_ms ms m =
     (case to_int64 (double_mult ms 1000) of
        None \<Rightarrow> None
      | Some k \<Rightarrow>
          let m1 = m\<lparr>stream_latency_sum_ms := stream_latency_sum_ms m + k\<rparr>
          in Some (m1\<lparr>stream_latency_count := stream_latency_count m1 + 1\<rparr>))"

section \<open>Prometheus text\<close>

definition nl :: string where
  "nl = [CHR 0x0A]"

definition avg_us :: "Metrics \<Rightarrow> rat" where
  "avg_us m = double_div (double_of (of_int (sint (rpc_latency_sum_us m))))
                (double_of (of_int (sint (rpc_latency_count m))))"

definition avg_ms :: "Metrics \<Rightarrow> rat" where
  "avg_ms m = double_div
     (double_div (double_of (of_int (sint (stream_latency_sum_ms m))))
        (double_of (of_int (sint (stream_latency_count m))))) 1000"

definition get_prometheus_text :: "Metrics \<Rightarrow> string" where
  "get_prometheus_text m =
     ''# HELP drocm_nodes_online Current number of online nodes'' @ nl @
     ''# TYPE drocm_nodes_online gauge'' @ nl @
     ''drocm_nodes_online '' @ to_string (sint (nodes_online m)) @ nl @
     ''# HELP drocm_heartbeat_miss_total Total missed heartbeats'' @ nl @
     ''# TYPE drocm_heartbeat_miss_total counter'' @ nl @
     ''drocm_heartbeat_miss_total '' @ to_string (sint (heartbeat_miss_total m)) @ nl @
     ''# HELP drocm_messages_sent_total Total messages sent via streaming'' @ nl @
     ''# TYPE drocm_messages_sent_total counter'' @ nl @
     ''drocm_messages_sent_total '' @ to_string (sint (messages_sent_total m)) @ nl @
     (if sint (rpc_latency_count m) > 0 then
        ''# HELP drocm_rpc_latency_avg_us Average RPC latency in us'' @ nl @
        ''# TYPE drocm_rpc_latency_avg_us gauge'' @ nl @
        ''drocm_rpc_latency_avg_us '' @ print_fixed 2 (avg_us m) @ nl
      else []) @
     (if sint (stream_latency_count m) > 0 then
        ''# HELP drocm_stream_latency_avg_ms Average stream latency in ms'' @ nl @
        ''# TYPE drocm_stream_latency_avg_ms gauge'' @ nl @
        ''drocm_stream_latency_avg_ms '' @ print_fixed 4 (avg_ms m) @ nl
      else [])"

section \<open>The scoped timer\<close>

text \<open>Clock readings are nanosecond ticks; the cast to microseconds truncates.\<close>

record ScopedRpcLatency =
  sl_start :: time_point
  sl_stopped :: bool

definition ScopedRpcLatency_new :: "time_point \<Rightarrow> ScopedRpcLatency" where
  "ScopedRpcLatency_new now = \<lparr>sl_start = now, sl_stopped = False\<rparr>"

definition duration_us :: "time_point \<Rightarrow> time_point \<Rightarrow> int" where
  "duration_us s e = (if s \<le> e then (e - s) div 1000 else - ((s - e) div 1000))"

definition ScopedRpcLatency_stop ::
    "time_point \<Rightarrow> ScopedRpcLatency \<times> Metrics \<Rightarrow> (ScopedRpcLatency \<times> Metrics) option" where
  "ScopedRpcLatency_stop now = (\<lambda>(t, m).
     if \<not> sl_stopped t then
       (case record_rpc_latency_us (double_of (of_int (duration_us (sl_start t) now))) m of
          None \<Rightarrow> None
        | Some m' \<Rightarrow> Some (t\<lparr>sl_stopped := True\<rparr>, m'))
     else Some (t, m))"

text \<open>A timer's life: explicit stops at the given times and the one of the destructor at the end.\<close>

fun timer_stops :: "time_point list \<Rightarrow> ScopedRpcLatency \<times> Metrics \<Rightarrow> (ScopedRpcLatency \<times> Metrics) option" where
  "timer_stops [] x = Some x"
| "timer_stops (now # ts) x =
     (case ScopedRpcLatency_stop now x of None \<Rightarrow> None | Some x' \<Rightarrow> timer_stops ts x')"

definition timer_life :: "time_point \<Rightarrow> time_point list \<Rightarrow> time_point \<Rightarrow> Metrics \<Rightarrow> Metrics option" where
  "timer_life start stops dtor m =
     map_option snd (timer_stops (stops @ [dtor]) (ScopedRpcLatency_new start, m))"

section \<open>Concurrent updates\<close>

datatype metric_op =
    NodesUp
  | NodesDown
  | RpcLatency rat
  | HeartbeatMiss
  | MessageSent
  | StreamLatency rat

fun metric_exec :: "metric_op \<Rightarrow> Metrics \<Rightarrow> Metrics option" where
  "metric_exec NodesUp m = Some (increment_nodes_online m)"
| "metric_exec NodesDown m = Some (decrement_nodes_online m)"
| "metric_exec (RpcLatency us) m = record_rpc_latency_us us m"
| "metric_exec HeartbeatMiss m = Some (increment_heartbeat_miss m)"
| "metric_exec MessageSent m = Some (increment_messages_sent m)"
| "metric_exec (StreamLatency ms) m = record_stream_latency_ms ms m"

fun metric_run :: "metric_op list \<Rightarrow> Metrics \<Rightarrow> Metrics option" where
  "metric_run [] m = Some m"
| "metric_run (op # ops) m = (case metric_exec op m of None \<Rightarrow> None | Some m' \<Rightarrow> metric_run ops m')"

text \<open>
  Each call is one or two atomic additions; threads that update the metrics at the same time
  interleave at that granularity. \<open>atomics op\<close> are the additions of a call in program order.
\<close>

datatype atomic_add =
    AddNodes i64
  | AddMiss i64
  | AddSent i64
  | AddRpcSum i64
  | AddRpcCount i64
  | AddStreamSum i64
  | AddStreamCount i64

fun apply_add :: "atomic_add \<Rightarrow> Metrics \<Rightarrow> Metrics" where
  "apply_add (AddNodes k) m = m\<lparr>nodes_online := nodes_online m + k\<rparr>"
| "apply_add (AddMiss k) m = m\<lparr>heartbeat_miss_total := heartbeat_miss_total m + k\<rparr>"
| "apply_add (AddSent k) m = m\<lparr>messages_sent_total := messages_sent_total m + k\<rparr>"
| "apply_add (AddRpcSum k) m = m\<lparr>rpc_latency_sum_us := rpc_latency_sum_us m + k\<rparr>"
| "apply_add (AddRpcCount k) m = m\<lparr>rpc_latency_count := rpc_latency_count m + k\<rparr>"
| "apply_add (AddStreamSum k) m = m\<lparr>stream_latency_sum_ms := stream_latency_sum_ms m + k\<rparr>"
| "apply_add (AddStreamCount k) m = m\<lparr>stream_latency_count := stream_latency_count m + k\<rparr>"

fun atomics :: "metric_op \<Rightarrow> atomic_add list option" where
  "atomics NodesUp = Some [AddNodes 1]"
| "atomics NodesDown = Some [AddNodes (- 1)]"
| "atomics (RpcLatency us) = map_option (\<lambda>k. [AddRpcSum k, AddRpcCount 1]) (to_int64 us)"
| "atomics HeartbeatMiss = Some [AddMiss 1]"
| "atomics MessageSent = Some [AddSent 1]"
| "atomics (StreamLatency ms) =
     map_option (\<lambda>k. [AddStreamSum k, AddStreamCount 1]) (to_int64 (double_mult ms 1000))"

lemmas metric_defs =
  increment_nodes_online_def decrement_nodes_online_def increment_heartbeat_miss_def
  increment_messages_sent_def record_rpc_latency_us_def record_stream_latency_ms_def

lemma metric_exec_atomics: "metric_exec op m = map_option (\<lambda>as. fold apply_add as m) (atomics op)"
  by (cases op) (auto simp: metric_defs Let_def split: option.split)

lemma apply_add_commute: "apply_add a (apply_add b m) = apply_add b (apply_add a m)"
  by (cases a; cases b) (simp_all add: ac_simps)

lemma metric_run_atomics:
  "metric_run ops m = Some m' \<Longrightarrow>
   (\<forall>op \<in> set ops. atomics op \<noteq> None) \<and> m' = fold apply_add (concat (map (the \<circ> atomics) ops)) m"
proof (induction ops arbitrary: m)
  case (Cons op ops)
  then obtain as where "atomics op = Some as" "metric_run ops (fold apply_add as m) = Some m'"
    by (auto simp: metric_exec_atomics split: option.splits)
  with Cons.IH show ?case by simp
qed simp

lemma fold_apply_add_perm: "mset as = mset bs \<Longrightarrow> fold apply_add as m = fold apply_add bs m"
  by (rule fun_cong [OF fold_multiset_equiv]) (auto simp: fun_eq_iff apply_add_commute)

lemma metric_run_counts:
  "metric_run ops m = Some m' \<Longrightarrow>
   nodes_online m' = nodes_online m + of_nat (count_list ops NodesUp) - of_nat (count_list ops NodesDown) \<and>
   heartbeat_miss_total m' = heartbeat_miss_total m + of_nat (count_list ops HeartbeatMiss) \<and>
   messages_sent_total m' = messages_sent_total m + of_nat (count_list ops MessageSent) \<and>
   rpc_latency_count m' = rpc_latency_count m + of_nat (length [us. RpcLatency us \<leftarrow> ops]) \<and>
   rpc_latency_sum_us m' = rpc_latency_sum_us m + sum_list [the (to_int64 us). RpcLatency us \<leftarrow> ops]"
proof (induction ops arbitrary: m)
  case (Cons op ops)
  then obtain m1 where m1: "metric_exec op m = Some m1" "metric_run ops m1 = Some m'"
    by (auto split: option.splits)
  with Cons.IH [OF m1(2)] show ?case
    by (cases op) (auto simp: metric_defs Let_def split: option.splits)
qed simp

text \<open>C24: No update of the metrics is lost. However threads interleave the atomic additions of their
  calls, once all are done the counters are those of running the calls one after the other: the
  gauge of online nodes has moved by the increments minus the decrements, each counter by its number
  of calls, and the latency accumulator by the sum of the truncated latencies.\<close>

theorem metrics_lose_no_update:
  assumes "metric_run ops m = Some m'"
    and "mset as = mset (concat (map (the \<circ> atomics) ops))"
  shows "fold apply_add as m = m' \<and>
         nodes_online m' =
           nodes_online m + of_nat (count_list ops NodesUp) - of_nat (count_list ops NodesDown) \<and>
         heartbeat_miss_total m' = heartbeat_miss_total m + of_nat (count_list ops HeartbeatMiss) \<and>
         messages_sent_total m' = messages_sent_total m + of_nat (count_list ops MessageSent) \<and>
         rpc_latency_count m' = rpc_latency_count m + of_nat (length [us. RpcLatency us \<leftarrow> ops]) \<and>
         rpc_latency_sum_us m' = rpc_latency_sum_us m + sum_list [the (to_int64 us). RpcLatency us \<leftarrow> ops]"
  using metric_run_counts [OF assms(1)] metric_run_atomics [OF assms(1)]
    fold_apply_add_perm [OF assms(2), of m] by simp

theorem metrics_lose_no_update_witness:
  "messages_sent_total (fold apply_add [AddSent 1, AddRpcCount 1, AddSent 1, AddRpcSum 7] Metrics_new) = 2"
proof -
  have t: "to_int64 (15 / 2) = Some 7" by code_simp
  have run: "metric_run [MessageSent, RpcLatency (15 / 2), MessageSent] Metrics_new =
      Some (Metrics_new\<lparr>messages_sent_total := 2, rpc_latency_sum_us := 7, rpc_latency_count := 1\<rparr>)"
    by (simp add: metric_defs t Metrics_new_def)
  from metrics_lose_no_update [OF run, of "[AddSent 1, AddRpcCount 1, AddSent 1, AddRpcSum 7]"]
  show ?thesis by (simp add: t)
qed

text \<open>A scoped timer records exactly one latency, at its first stop: further explicit stops and the
  one of the destructor add nothing.\<close>

lemma scoped_timer_records_once:
  "timer_life start (now # later) dtor m =
     record_rpc_latency_us (double_of (of_int (duration_us start now))) m \<and>
   timer_life start [] dtor m =
     record_rpc_latency_us (double_of (of_int (duration_us start dtor))) m"
proof -
  have noop: "sl_stopped t \<Longrightarrow> timer_stops ts (t, m) = Some (t, m)" for ts t m
    by (induction ts) (simp_all add: ScopedRpcLatency_stop_def)
  show ?thesis
    by (auto simp: timer_life_def ScopedRpcLatency_stop_def ScopedRpcLatency_new_def noop split: option.split)
qed

section \<open>Reading the text back\<close>

text \<open>What a scraper does: split the text into lines, find the sample line of a metric, take the
  rest of that line as the value.\<close>

fun lines_of :: "string \<Rightarrow> string list" where
  "lines_of [] = []"
| "lines_of (c # cs) =
     (if c = CHR 0x0A then [] # lines_of cs
      else case lines_of cs of [] \<Rightarrow> [[c]] | l # ls \<Rightarrow> (c # l) # ls)"

fun after_prefix :: "string \<Rightarrow> string \<Rightarrow> string option" where
  "after_prefix [] l = Some l"
| "after_prefix (p # ps) [] = None"
| "after_prefix (p # ps) (c # l) = (if p = c then after_prefix ps l else None)"

fun first_sample :: "string \<Rightarrow> string list \<Rightarrow> string option" where
  "first_sample name [] = None"
| "first_sample name (l # ls) =
     (case after_prefix (name @ '' '') l of Some v \<Rightarrow> Some v | None \<Rightarrow> first_sample name ls)"

definition scrape :: "string \<Rightarrow> string \<Rightarrow> string option" where
  "scrape name txt = first_sample name (lines_of txt)"

definition metric_lines :: "Metrics \<Rightarrow> string list" where
  "metric_lines m =
     [''# HELP drocm_nodes_online Current number of online nodes'',
      ''# TYPE drocm_nodes_online gauge'',
      ''drocm_nodes_online '' @ to_string (sint (nodes_online m)),
      ''# HELP drocm_heartbeat_miss_total Total missed heartbeats'',
      ''# TYPE drocm_heartbeat_miss_total counter'',
      ''drocm_heartbeat_miss_total '' @ to_string (sint (heartbeat_miss_total m)),
      ''# HELP drocm_messages_sent_total Total messages sent via streaming'',
      ''# TYPE drocm_messages_sent_total counter'',
      ''drocm_messages_sent_total '' @ to_string (sint (messages_sent_total m))] @
     (if sint (rpc_latency_count m) > 0 then
        [''# HELP drocm_rpc_latency_avg_us Average RPC latency in us'',
         ''# TYPE drocm_rpc_latency_avg_us gauge'',
         ''drocm_rpc_latency_avg_us '' @ print_fixed 2 (avg_us m)]
      else []) @
     (if sint (stream_latency_count m) > 0 then
        [''# HELP drocm_stream_latency_avg_ms Average stream latency in ms'',
         ''# TYPE drocm_stream_latency_avg_ms gauge'',
         ''drocm_stream_latency_avg_ms '' @ print_fixed 4 (avg_ms m)]
      else [])"

lemma get_prometheus_text_lines:
  "get_prometheus_text m = concat (map (\<lambda>l. l @ nl) (metric_lines m))"
  unfolding get_prometheus_text_def metric_lines_def
  by (simp only: map_append concat_append list.map concat.simps append_assoc append_Nil append_Nil2
      if_distrib [of "map _"] if_distrib [of concat])

lemma lines_of_line:
  "CHR 0x0A \<notin> set l \<Longrightarrow> lines_of (l @ nl @ rest) = l # lines_of rest"
  by (induction l) (auto simp: nl_def)

lemma lines_of_lines:
  "list_all (\<lambda>l. CHR 0x0A \<notin> set l) ls \<Longrightarrow> lines_of (concat (map (\<lambda>l. l @ nl) ls)) = ls"
  by (induction ls) (simp_all add: lines_of_line)

lemma nl_not_in_to_string: "CHR 0x0A \<notin> set (to_string i)"
  using digits_of_nat_set [of "CHR 0x0A"] by (auto simp: to_string_def)

lemma nl_not_in_pad: "CHR 0x0A \<notin> set (pad_digits p n)"
proof (induction p arbitrary: n)
  case (Suc p)
  have "nat (n mod 10) < 10" by (simp add: nat_less_iff)
  then have "of_char (digit_char (nat (n mod 10))) = 48 + nat (n mod 10)" by simp
  then have "digit_char (nat (n mod 10)) \<noteq> CHR 0x0A"
    by (cases "digit_char (nat (n mod 10)) = CHR 0x0A") simp_all
  with Suc show ?case by auto
qed simp

lemma nl_not_in_print_fixed: "CHR 0x0A \<notin> set (print_fixed p x)"
  by (simp add: print_fixed_def Let_def nl_not_in_to_string nl_not_in_pad)

lemma lines_of_text: "lines_of (get_prometheus_text m) = metric_lines m"
  unfolding get_prometheus_text_lines
  by (rule lines_of_lines)
    (simp add: metric_lines_def nl_not_in_to_string nl_not_in_print_fixed)

lemma scrape_text: "scrape name (get_prometheus_text m) = first_sample name (metric_lines m)"
  by (simp add: scrape_def lines_of_text)

text \<open>C25: The Prometheus text is faithful: a scraper that looks a metric up by name reads back exactly
  the gauge of online nodes and the two counters, negative values included, and finds an average
  latency exactly if at least one latency was recorded.\<close>

theorem prometheus_text_faithful:
  "map_option int_of_string (scrape ''drocm_nodes_online'' (get_prometheus_text m)) =
     Some (sint (nodes_online m)) \<and>
   map_option int_of_string (scrape ''drocm_heartbeat_miss_total'' (get_prometheus_text m)) =
     Some (sint (heartbeat_miss_total m)) \<and>
   map_option int_of_string (scrape ''drocm_messages_sent_total'' (get_prometheus_text m)) =
     Some (sint (messages_sent_total m)) \<and>
   scrape ''drocm_rpc_latency_avg_us'' (get_prometheus_text m) =
     (if 0 < sint (rpc_latency_count m) then Some (print_fixed 2 (avg_us m)) else None) \<and>
   scrape ''drocm_stream_latency_avg_ms'' (get_prometheus_text m) =
     (if 0 < sint (stream_latency_count m) then Some (print_fixed 4 (avg_ms m)) else None)"
  unfolding scrape_text by (intro conjI) (simp_all add: metric_lines_def)

lemma double_div_ints_error:
  assumes "\<bar>s\<bar> < 2 ^ 53" and "0 < c" and "c < 2 ^ 53"
  shows "\<bar>double_div (double_of (of_int s)) (double_of (of_int c)) - of_int s / of_int c\<bar>
         \<le> \<bar>of_int s / of_int c\<bar> / 2 ^ 52"
proof (cases "s = 0")
  case False
  define q :: rat where "q = of_int s / of_int c"
  have c: "(of_int c :: rat) < 2 ^ 53" "(0 :: rat) < of_int c"
    using assms(2,3) by (simp_all add: of_int_less_numeral_power_cancel_iff)
  have "(1 :: rat) \<le> \<bar>of_int s\<bar>" using False by (metis of_int_1_le_iff of_int_abs zero_less_abs_iff
        int_one_le_iff_zero_less)
  then have "1 / 2 ^ 53 \<le> \<bar>q\<bar>"
    unfolding q_def abs_divide using c by (intro frac_le) auto
  then have "1 / 2 ^ 1075 \<le> \<bar>q\<bar> / 2 ^ 53" by (simp add: field_simps)
  moreover have "double_div (double_of (of_int s)) (double_of (of_int c)) = double_of q"
    using assms double_of_int_exact [of s] double_of_int_exact [of c] by (simp add: double_div_def q_def)
  ultimately show ?thesis using double_of_error [of q] by (simp flip: q_def)
qed (simp add: double_div_def)

text \<open>C29: The exported average RPC latency is accurate: as long as the accumulated microseconds and the
  number of calls stay below 2 ^ 53, the printed number differs from the exact quotient by at most
  half a hundredth, the rounding of the two decimals, plus one part in 2 ^ 52 from the floating-point
  division.\<close>

theorem average_latency_accurate:
  assumes "0 < sint (rpc_latency_count m)" and "sint (rpc_latency_count m) < 2 ^ 53"
    and "\<bar>sint (rpc_latency_sum_us m)\<bar> < 2 ^ 53"
  shows "\<exists>v. scrape ''drocm_rpc_latency_avg_us'' (get_prometheus_text m) = Some v \<and>
           \<bar>parse_fixed v - of_int (sint (rpc_latency_sum_us m)) / of_int (sint (rpc_latency_count m))\<bar>
           \<le> 1 / 200 + \<bar>of_int (sint (rpc_latency_sum_us m)) / of_int (sint (rpc_latency_count m))\<bar> / 2 ^ 52"
proof -
  let ?q = "of_int (sint (rpc_latency_sum_us m)) / of_int (sint (rpc_latency_count m)) :: rat"
  have "\<bar>avg_us m - ?q\<bar> \<le> \<bar>?q\<bar> / 2 ^ 52"
    unfolding avg_us_def by (rule double_div_ints_error) (use assms in auto)
  moreover have "\<bar>parse_fixed (print_fixed 2 (avg_us m)) - avg_us m\<bar> \<le> 1 / 200"
    using print_fixed_error [of 2 "avg_us m"] by simp
  moreover have "scrape ''drocm_rpc_latency_avg_us'' (get_prometheus_text m) = Some (print_fixed 2 (avg_us m))"
    unfolding scrape_text using assms(1) by (simp add: metric_lines_def)
  ultimately show ?thesis by (intro exI [of _ "print_fixed 2 (avg_us m)"]) linarith
qed

theorem average_latency_accurate_witness:
  "\<exists>v. scrape ''drocm_rpc_latency_avg_us''
         (get_prometheus_text (Metrics_new\<lparr>rpc_latency_sum_us := 100, rpc_latency_count := 3\<rparr>)) = Some v \<and>
       \<bar>parse_fixed v - 100 / 3\<bar> \<le> 1 / 100"
proof -
  let ?m = "Metrics_new\<lparr>rpc_latency_sum_us := 100, rpc_latency_count := 3\<rparr>"
  have c: "sint (rpc_latency_count ?m) = 3" "sint (rpc_latency_sum_us ?m) = 100"
    by (simp_all add: Metrics_new_def)
  from average_latency_accurate [of ?m] obtain v where
    "scrape ''drocm_rpc_latency_avg_us'' (get_prometheus_text ?m) = Some v"
    "\<bar>parse_fixed v - 100 / 3\<bar> \<le> 1 / 200 + (100 / 3) / 2 ^ 52"
    unfolding c by auto
  then show ?thesis by (intro exI [of _ v]) simp
qed

end
