(* ===== verification/Lidar_Emulator.thy ===== *)
theory Lidar_Emulator
  imports Messages Backoff Metrics "HOL-Library.Monad_Syntax" "HOL-Library.Sublist"
begin

text \<open>
  \<^verbatim>\<open>examples/lidar_emulator.cpp\<close>: the LIDAR node, that is its registration, the heartbeat thread
  with backoff and re-registration, the node service with its streaming loops, and the answer of
  the metrics endpoint. The registry stub, the gRPC stream and the clock are arguments. A loop runs
  over the list of what its iterations observe, so it stops where the list ends; undefined behaviour
  of \<^verbatim>\<open>int\<close> arithmetic is None.
\<close>

section \<open>Registration\<close>

definition lidar_info :: "string \<Rightarrow> int \<Rightarrow> NodeInfo" where
  "lidar_info nid prt =
     NodeInfo_default\<lparr>node_id := nid, ip_address := ''127.0.0.1'', port := word_of_int prt,
       services := [''lidar'']\<rparr>"

text \<open>The result, the session id variable of the caller afterwards and the world.\<close>

definition try_register_node ::
    "'w register_call \<Rightarrow> string \<Rightarrow> int \<Rightarrow> string \<Rightarrow> 'w \<Rightarrow> bool \<times> string \<times> 'w" where
  "try_register_node reg nid prt session_id w =
     (let req = RegisterRequest_default\<lparr>rq_node_info := Some (lidar_info nid prt)\<rparr>;
          (status, resp, w1) = reg req RegisterResponse_default w
      in if status_ok status \<and> rr_success resp then (True, rr_session_id resp, w1)
         else (False, session_id, w1))"

section \<open>Heartbeat thread\<close>

text \<open>The local variables of \<^verbatim>\<open>run_heartbeat\<close> and the session id it shares with main.\<close>

record heartbeat_vars =
  hv_session_id :: string
  hv_consecutive_failures :: int
  hv_needs_reregister :: bool

definition lidar_max_retries :: int where
  "lidar_max_retries = 5"

text \<open>\<^verbatim>\<open>std::min(500 * (1 << (consecutive_failures - 1)), 10000)\<close>\<close>

definition lidar_backoff_ms :: "int \<Rightarrow> int option" where
  "lidar_backoff_ms failures =
     do { n \<leftarrow> int_plus failures (- 1);
          p \<leftarrow> int_shl 1 n;
          d \<leftarrow> int_times 500 p;
          Some (min d 10000) }"

text \<open>The constants 15.0f and 45.0f as bit patterns.\<close>

definition lidar_heartbeat_request :: "string \<Rightarrow> string \<Rightarrow> u64 \<Rightarrow> HeartbeatRequest" where
  "lidar_heartbeat_request nid session_id ts =
     HeartbeatRequest_default\<lparr>hq_node_id := nid, hq_session_id := session_id, hq_timestamp := ts,
       hq_cpu_usage := 0x41700000, hq_memory_usage := 0x42340000, hq_active_connections := 2\<rparr>"

text \<open>The body of the loop from the heartbeat request on: new variables, world and the time slept.\<close>

definition lidar_beat ::
    "'w heartbeat_call \<Rightarrow> string \<Rightarrow> u64 \<Rightarrow> heartbeat_vars \<Rightarrow> 'w \<Rightarrow> (heartbeat_vars \<times> 'w \<times> int) option" where
  "lidar_beat hb nid ts v w =
     (let (status, resp, w1) = hb (lidar_heartbeat_request nid (hv_session_id v) ts) HeartbeatResponse_default w
      in if status_ok status \<and> hr_success resp then
           Some (v\<lparr>hv_consecutive_failures := 0\<rparr>, w1, 500)
         else
           do { failures \<leftarrow> int_plus (hv_consecutive_failures v) 1;
                backoff_ms \<leftarrow> lidar_backoff_ms failures;
                let v1 = v\<lparr>hv_consecutive_failures := failures\<rparr>;
                let v2 = (if failures \<ge> lidar_max_retries then v1\<lparr>hv_needs_reregister := True\<rparr> else v1);
                Some (v2, w1, backoff_ms) })"

definition lidar_iteration ::
    "'w register_call \<Rightarrow> 'w heartbeat_call \<Rightarrow> string \<Rightarrow> int \<Rightarrow> u64 \<Rightarrow> heartbeat_vars \<Rightarrow> 'w
     \<Rightarrow> (heartbeat_vars \<times> 'w \<times> int) option" where
  "lidar_iteration reg hb nid prt ts v w =
     (if hv_needs_reregister v then
        let (ok, session_id, w1) = try_register_node reg nid prt (hv_session_id v) w;
            v1 = v\<lparr>hv_session_id := session_id\<rparr>
        in if ok then
             lidar_beat hb nid ts (v1\<lparr>hv_needs_reregister := False, hv_consecutive_failures := 0\<rparr>) w1
           else Some (v1, w1, 2000)
      else lidar_beat hb nid ts v w)"

text \<open>
  The loop. An observation is the two flags the loop condition reads (\<^verbatim>\<open>heartbeat_running\<close>, then
  \<^verbatim>\<open>g_running\<close>) and the wall clock; the last component collects the sleeps.
\<close>

fun run_heartbeat_loop ::
    "'w register_call \<Rightarrow> 'w heartbeat_call \<Rightarrow> string \<Rightarrow> int \<Rightarrow> (bool \<times> bool \<times> u64) list \<Rightarrow> heartbeat_vars \<Rightarrow> 'w
     \<Rightarrow> (heartbeat_vars \<times> 'w \<times> int list) option" where
  "run_heartbeat_loop reg hb nid prt [] v w = Some (v, w, [])"
| "run_heartbeat_loop reg hb nid prt ((heartbeat_running, g_running, ts) # obs) v w =
     (if heartbeat_running \<and> g_running then
        do { (v1, w1, slept) \<leftarrow> lidar_iteration reg hb nid prt ts v w;
             (v2, w2, sleeps) \<leftarrow> run_heartbeat_loop reg hb nid prt obs v1 w1;
             Some (v2, w2, slept # sleeps) }
      else Some (v, w, []))"

definition run_heartbeat ::
    "'w register_call \<Rightarrow> 'w heartbeat_call \<Rightarrow> string \<Rightarrow> int \<Rightarrow> string \<Rightarrow> (bool \<times> bool \<times> u64) list \<Rightarrow> 'w
     \<Rightarrow> (heartbeat_vars \<times> 'w \<times> int list) option" where
  "run_heartbeat reg hb nid prt session_id obs w =
     run_heartbeat_loop reg hb nid prt obs
       \<lparr>hv_session_id = session_id, hv_consecutive_failures = 0, hv_needs_reregister = False\<rparr> w"

text \<open>What \<^verbatim>\<open>main\<close> does with the registry: one registration attempt, then the heartbeat thread with
  whatever session id that left.\<close>

definition lidar_client ::
    "'w register_call \<Rightarrow> 'w heartbeat_call \<Rightarrow> (bool \<times> bool \<times> u64) list \<Rightarrow> 'w
     \<Rightarrow> (heartbeat_vars \<times> 'w \<times> int list) option" where
  "lidar_client reg hb obs w =
     (let (ok, session_id, w1) = try_register_node reg ''lidar_01'' 50052 ''pending'' w
      in run_heartbeat reg hb ''lidar_01'' 50052 session_id obs w1)"

section \<open>Node service\<close>

text \<open>\<open>now_ms\<close> is the wall clock in milliseconds.\<close>

definition GetStatus ::
    "u64 \<Rightarrow> GetStatusRequest \<Rightarrow> GetStatusResponse \<Rightarrow> Status \<times> GetStatusResponse" where
  "GetStatus now_ms req resp = (Status_OK, resp\<lparr>gr_response_time := now_ms\<rparr>)"

definition Publish :: "TopicData \<Rightarrow> GetStatusResponse \<Rightarrow> Status \<times> GetStatusResponse" where
  "Publish req resp = (Status_OK, resp)"

text \<open>The payload of frame \<open>i\<close>: \<^verbatim>\<open>i * 0.5\<close> and \<^verbatim>\<open>i * 0.3\<close> as doubles, printed with six places.\<close>

definition frame_payload :: "int \<Rightarrow> string" where
  "frame_payload i =
     ''{'' @ [CHR 0x22] @ ''x'' @ [CHR 0x22] @ '':'' @
     print_fixed 6 (double_mult (of_int i) (double_of (5 / 10))) @ '','' @
     [CHR 0x22] @ ''y'' @ [CHR 0x22] @ '':'' @
     print_fixed 6 (double_mult (of_int i) (double_of (3 / 10))) @ ''}''"

text \<open>One message object is reused for all frames: cleared, then filled.\<close>

definition TopicData_Clear :: "TopicData \<Rightarrow> TopicData" where
  "TopicData_Clear d = TopicData_default"

definition fill_frame :: "string \<Rightarrow> u64 \<Rightarrow> int \<Rightarrow> TopicData \<Rightarrow> TopicData" where
  "fill_frame topic now_ms i d =
     (TopicData_Clear d)\<lparr>td_topic := topic, td_timestamp := now_ms, td_payload_type := ''RobotStatus'',
       td_payload := frame_payload i\<rparr>"

definition kMaxBackpressureRetries :: int where
  "kMaxBackpressureRetries = 3"

text \<open>\<^verbatim>\<open>10 << (consecutive_failures - 1)\<close>\<close>

definition stream_backoff_ms :: "int \<Rightarrow> int option" where
  "stream_backoff_ms failures = do { n \<leftarrow> int_plus failures (- 1); int_shl 10 n }"

datatype subscribe_exit = Sub_Streaming | Sub_Stopped | Sub_Dropped

text \<open>What a subscription has done: the frames offered to the writer with its answers, the sleeps,
  the metrics and the world behind the stream.\<close>

record 'w subscription =
  sb_writes :: "(TopicData \<times> bool) list"
  sb_sleeps :: "int list"
  sb_metrics :: Metrics
  sb_world :: 'w

text \<open>An observation of the streaming loop is the flag \<^verbatim>\<open>g_running\<close> and the wall clock.\<close>

fun subscribe_loop ::
    "(TopicData \<Rightarrow> 'w \<Rightarrow> bool \<times> 'w) \<Rightarrow> string \<Rightarrow> (bool \<times> u64) list \<Rightarrow> int \<Rightarrow> int \<Rightarrow> TopicData
     \<Rightarrow> 'w subscription \<Rightarrow> (subscribe_exit \<times> 'w subscription) option" where
  "subscribe_loop write topic [] i failures d s = Some (Sub_Streaming, s)"
| "subscribe_loop write topic ((g_running, now_ms) # obs) i failures d s =
     (if \<not> g_running then Some (Sub_Stopped, s)
      else
        let d1 = fill_frame topic now_ms i d;
            (ok, w1) = write d1 (sb_world s);
            s1 = s\<lparr>sb_writes := sb_writes s @ [(d1, ok)], sb_world := w1\<rparr>
        in if \<not> ok then
             do { failures1 \<leftarrow> int_plus failures 1;
                  if failures1 \<ge> kMaxBackpressureRetries then Some (Sub_Dropped, s1)
                  else do { backoff \<leftarrow> stream_backoff_ms failures1;
                            i1 \<leftarrow> int_plus i 1;
                            subscribe_loop write topic obs i1 failures1 d1
                              (s1\<lparr>sb_sleeps := sb_sleeps s1 @ [backoff]\<rparr>) } }
           else
             do { i1 \<leftarrow> int_plus i 1;
                  subscribe_loop write topic obs i1 0 d1
                    (s1\<lparr>sb_metrics := increment_messages_sent (sb_metrics s1)\<rparr>) })"

definition Subscribe ::
    "(TopicData \<Rightarrow> 'w \<Rightarrow> bool \<times> 'w) \<Rightarrow> SubscribeRequest \<Rightarrow> (bool \<times> u64) list \<Rightarrow> Metrics \<Rightarrow> 'w
     \<Rightarrow> (Status \<times> subscribe_exit \<times> 'w subscription) option" where
  "Subscribe write request obs m w =
     do { (x, s) \<leftarrow> subscribe_loop write (sq_topic request) obs 0 0 TopicData_default
            \<lparr>sb_writes = [], sb_sleeps = [], sb_metrics = m, sb_world = w\<rparr>;
          Some (Status_OK, x, s) }"

definition kMaxPending :: int where
  "kMaxPending = 5"

text \<open>
  The control stream. The list is what \<^verbatim>\<open>Read\<close> delivers before it returns false; the results are
  the responses offered to \<^verbatim>\<open>Write\<close> with its answers, the requests dropped because too many were
  pending, and the world.
\<close>

fun control_loop ::
    "(ControlStreamResponse \<Rightarrow> 'w \<Rightarrow> bool \<times> 'w) \<Rightarrow> ControlStreamRequest list \<Rightarrow> int \<Rightarrow> 'w
     \<Rightarrow> ((ControlStreamResponse \<times> bool) list \<times> ControlStreamRequest list \<times> 'w) option" where
  "control_loop write [] pending w = Some ([], [], w)"
| "control_loop write (req # reqs) pending w =
     (if pending \<ge> kMaxPending then
        do { (out, dropped, w') \<leftarrow> control_loop write reqs pending w;
             Some (out, req # dropped, w') }
      else
        do { pending1 \<leftarrow> int_plus pending 1;
             let resp = ControlStreamResponse_default\<lparr>cr_session_id := cq_session_id req\<rparr>;
             let (ok, w1) = write resp w;
             if \<not> ok then Some ([(resp, ok)], [], w1)
             else do { pending2 \<leftarrow> int_plus pending1 (- 1);
                       (out, dropped, w') \<leftarrow> control_loop write reqs pending2 w1;
                       Some ((resp, ok) # out, dropped, w') } })"

definition ControlStream ::
    "(ControlStreamResponse \<Rightarrow> 'w \<Rightarrow> bool \<times> 'w) \<Rightarrow> ControlStreamRequest list \<Rightarrow> 'w
     \<Rightarrow> (Status \<times> (ControlStreamResponse \<times> bool) list \<times> ControlStreamRequest list \<times> 'w) option" where
  "ControlStream write reqs w =
     do { (out, dropped, w') \<leftarrow> control_loop write reqs 0 w; Some (Status_OK, out, dropped, w') }"

section \<open>Metrics endpoint\<close>

definition crlf :: string where
  "crlf = [CHR 0x0D, CHR 0x0A]"

definition metrics_http_response :: "Metrics \<Rightarrow> string" where
  "metrics_http_response m =
     (let body = get_prometheus_text m
      in ''HTTP/1.1 200 OK'' @ crlf @
         ''Content-Type: text/plain; version=0.0.4; charset=utf-8'' @ crlf @
         ''Content-Length: '' @ to_string (int (length body)) @ crlf @
         ''Connection: close'' @ crlf @ crlf @ body)"

section \<open>The backoff of the heartbeat thread\<close>

lemma lidar_backoff_exact:
  assumes "1 \<le> n" and "n \<le> 5"
  shows "lidar_backoff_ms (int n) = Some (500 * 2 ^ (n - 1))"
proof -
  consider "n = 1" | "n = 2" | "n = 3" | "n = 4" | "n = 5" using assms by linarith
  then show ?thesis
    by cases (simp_all add: lidar_backoff_ms_def int_plus_def int_times_def int_shl_def
        signed_take_bit_int_eq_self)
qed

interpretation lidar_backoff: exponential_backoff "\<lambda>n. nat (the (lidar_backoff_ms (int n)))" 500 10000 5
proof (unfold_locales, goal_cases)
  case (1 n)
  have "(2 :: nat) ^ (n - 1) \<le> 2 ^ 4" using 1 by (intro power_increasing) auto
  then have "min (500 * 2 ^ (n - 1)) 10000 = (500 * 2 ^ (n - 1) :: nat)" by simp
  then show ?case using lidar_backoff_exact [OF 1] by (simp add: nat_mult_distrib nat_power_eq)
qed

text \<open>Invariant of the heartbeat thread.\<close>

definition heartbeat_inv :: "heartbeat_vars \<Rightarrow> bool" where
  "heartbeat_inv v \<longleftrightarrow>
     0 \<le> hv_consecutive_failures v \<and> hv_consecutive_failures v \<le> 5 \<and>
     (hv_needs_reregister v \<longleftrightarrow> hv_consecutive_failures v = 5)"

lemma lidar_backoff_le_8000:
  assumes "1 \<le> n" and "n \<le> 5"
  shows "\<exists>d. lidar_backoff_ms n = Some d \<and> 500 \<le> d \<and> d \<le> 8000"
proof -
  have "lidar_backoff_ms n = Some (500 * 2 ^ (nat n - 1))"
    using lidar_backoff_exact [of "nat n"] assms by simp
  moreover have "(2 :: int) ^ (nat n - 1) \<le> 2 ^ 4" using assms by (intro power_increasing) auto
  moreover have "(1 :: int) \<le> 2 ^ (nat n - 1)" by simp
  ultimately show ?thesis by simp
qed

lemma lidar_beat_inv:
  assumes "heartbeat_inv v" and "\<not> hv_needs_reregister v"
  shows "\<exists>v' w' d. lidar_beat hb nid ts v w = Some (v', w', d) \<and> heartbeat_inv v' \<and> 500 \<le> d \<and> d \<le> 8000"
proof -
  obtain st r w1 where call:
      "hb (lidar_heartbeat_request nid (hv_session_id v) ts) HeartbeatResponse_default w = (st, r, w1)"
    by (metis prod_cases3)
  let ?n = "hv_consecutive_failures v"
  have n: "0 \<le> ?n" "?n \<le> 4" using assms by (auto simp: heartbeat_inv_def)
  obtain d where d: "lidar_backoff_ms (?n + 1) = Some d" "500 \<le> d" "d \<le> 8000"
    using lidar_backoff_le_8000 [of "?n + 1"] n by auto
  then show ?thesis
    using n assms(2) call
    by (auto simp: lidar_beat_def heartbeat_inv_def int_plus_def lidar_max_retries_def Let_def)
qed

lemma lidar_iteration_inv:
  assumes "heartbeat_inv v"
  shows "\<exists>v' w' d. lidar_iteration reg hb nid prt ts v w = Some (v', w', d) \<and> heartbeat_inv v' \<and>
           500 \<le> d \<and> d \<le> 8000"
proof (cases "hv_needs_reregister v")
  case False
  with lidar_beat_inv [OF assms] show ?thesis by (simp add: lidar_iteration_def)
next
  case True
  obtain ok sid w1 where reg: "try_register_node reg nid prt (hv_session_id v) w = (ok, sid, w1)"
    by (metis prod_cases3)
  let ?v = "v\<lparr>hv_session_id := sid, hv_needs_reregister := False, hv_consecutive_failures := 0\<rparr>"
  have "heartbeat_inv ?v" "\<not> hv_needs_reregister ?v" by (simp_all add: heartbeat_inv_def)
  from lidar_beat_inv [OF this] True reg assms show ?thesis
    by (cases ok) (simp_all add: lidar_iteration_def heartbeat_inv_def)
qed

lemma run_heartbeat_loop_inv:
  assumes "heartbeat_inv v"
  shows "\<exists>v' w' sleeps. run_heartbeat_loop reg hb nid prt obs v w = Some (v', w', sleeps) \<and>
           heartbeat_inv v' \<and> list_all (\<lambda>d. 500 \<le> d \<and> d \<le> 8000) sleeps"
  using assms
proof (induction obs arbitrary: v w)
  case (Cons ob obs)
  obtain a b ts where ob: "ob = (a, b, ts)" by (metis prod_cases3)
  obtain v1 w1 d where it: "lidar_iteration reg hb nid prt ts v w = Some (v1, w1, d)" "heartbeat_inv v1"
      "500 \<le> d" "d \<le> 8000"
    using lidar_iteration_inv [OF Cons.prems, of reg hb nid prt ts w] by blast
  from Cons.IH [OF it(2), of w1] obtain v2 w2 ss where
    "run_heartbeat_loop reg hb nid prt obs v1 w1 = Some (v2, w2, ss)" "heartbeat_inv v2"
    "list_all (\<lambda>d. 500 \<le> d \<and> d \<le> 8000) ss" by blast
  with it Cons.prems show ?case by (auto simp: ob)
qed simp

text \<open>C22: The LIDAR heartbeat thread is well behaved against any registry and network: it never runs
  into undefined arithmetic, its failure count stays between 0 and 5, it wants to re-register
  exactly when the count is 5, and every sleep of an iteration is between 500 ms and 8000 ms, so
  the 10 s cap of the backoff is never reached.\<close>

theorem lidar_heartbeat_safe:
  "\<exists>v' w' sleeps. run_heartbeat reg hb nid prt session_id obs w = Some (v', w', sleeps) \<and>
     0 \<le> hv_consecutive_failures v' \<and> hv_consecutive_failures v' \<le> lidar_max_retries \<and>
     (hv_needs_reregister v' \<longleftrightarrow> hv_consecutive_failures v' = lidar_max_retries) \<and>
     list_all (\<lambda>d. 500 \<le> d \<and> d \<le> 8000) sleeps"
proof -
  let ?v = "\<lparr>hv_session_id = session_id, hv_consecutive_failures = 0, hv_needs_reregister = False\<rparr>"
  have "heartbeat_inv ?v" by (simp add: heartbeat_inv_def)
  from run_heartbeat_loop_inv [OF this, of reg hb nid prt obs w] show ?thesis
    unfolding run_heartbeat_def heartbeat_inv_def lidar_max_retries_def by blast
qed

section \<open>The streaming loop\<close>

text \<open>
  \<open>drop_spec k rs x\<close>: with \<open>k\<close> failures behind it, a loop that got the answers \<open>rs\<close> and left with
  \<open>x\<close> was dropped exactly if the answers end in three failures in a row, and there are no three
  failures in a row before that.
\<close>

definition drop_spec :: "nat \<Rightarrow> bool list \<Rightarrow> subscribe_exit \<Rightarrow> bool" where
  "drop_spec k rs x \<longleftrightarrow>
     (x = Sub_Dropped \<longleftrightarrow> suffix [False, False, False] (replicate k False @ rs)) \<and>
     (\<forall>pre post. replicate k False @ rs = pre @ [False, False, False] @ post \<longrightarrow> post = [])"

lemma three_failures_skip:
  assumes "k < 3"
  shows "replicate k False @ True # rs = pre @ [False, False, False] @ post \<longleftrightarrow>
         (\<exists>pre'. pre = replicate k False @ True # pre' \<and> rs = pre' @ [False, False, False] @ post)"
proof -
  consider "k = 0" | "k = 1" | "k = 2" using assms by linarith
  then show ?thesis
    by cases (auto simp: Cons_eq_append_conv numeral_2_eq_2)
qed

lemma drop_spec_ok: "k < 3 \<Longrightarrow> drop_spec 0 rs x \<Longrightarrow> drop_spec k (True # rs) x"
  using three_failures_skip [of k rs _ "[]"] three_failures_skip [of k rs]
  unfolding drop_spec_def suffix_def by (auto 0 3)

lemma drop_spec_fail: "drop_spec (Suc k) rs x \<Longrightarrow> drop_spec k (False # rs) x"
  by (simp add: drop_spec_def replicate_app_Cons_same)

lemma drop_spec_last: "drop_spec 2 [False] Sub_Dropped"
  by (auto simp: drop_spec_def numeral_2_eq_2 Cons_eq_append_conv)

lemma drop_spec_Nil: "k < 3 \<Longrightarrow> x \<noteq> Sub_Dropped \<Longrightarrow> drop_spec k [] x"
  by (auto simp: drop_spec_def dest!: arg_cong [of _ _ length] suffix_length_le)

lemma stream_backoff_exact:
  assumes "1 \<le> n" and "n \<le> 2"
  shows "stream_backoff_ms (int n) = Some (10 * 2 ^ (n - 1))"
proof -
  consider "n = 1" | "n = 2" using assms by linarith
  then show ?thesis
    by cases (simp_all add: stream_backoff_ms_def int_plus_def int_shl_def signed_take_bit_int_eq_self)
qed

interpretation stream_backoff: exponential_backoff "\<lambda>n. nat (the (stream_backoff_ms (int n)))" 10 20 2
proof (unfold_locales, goal_cases)
  case (1 n)
  have "(2 :: nat) ^ (n - 1) \<le> 2 ^ 1" using 1 by (intro power_increasing) auto
  then have "min (10 * 2 ^ (n - 1)) 20 = (10 * 2 ^ (n - 1) :: nat)" by simp
  then show ?case using stream_backoff_exact [OF 1] by (simp add: nat_mult_distrib nat_power_eq)
qed

text \<open>The frames a run offers to the writer, its answers and what follows from them.\<close>

definition stream_spec ::
    "string \<Rightarrow> (bool \<times> u64) list \<Rightarrow> int \<Rightarrow> nat \<Rightarrow> 'w subscription \<Rightarrow> subscribe_exit \<Rightarrow> 'w subscription \<Rightarrow> bool" where
  "stream_spec topic obs i k s x s' \<longleftrightarrow>
     (\<exists>rs ss. sb_writes s' = sb_writes s @ rs \<and> sb_sleeps s' = sb_sleeps s @ ss \<and>
        set ss \<subseteq> {10, 20} \<and> drop_spec k (map snd rs) x \<and>
        length rs \<le> length obs \<and>
        (\<forall>j < length rs. fst (rs ! j) = fill_frame topic (snd (obs ! j)) (i + int j) TopicData_default) \<and>
        messages_sent_total (sb_metrics s') =
          messages_sent_total (sb_metrics s) + word_of_nat (length (filter snd rs)))"

lemma fill_frame_any: "fill_frame topic ts i d = fill_frame topic ts i TopicData_default"
  by (simp add: fill_frame_def TopicData_Clear_def)

lemma nth_Cons_frames:
  "(\<forall>j < length rs. fst (rs ! j) = f (obs ! j) (i + 1 + int j)) \<Longrightarrow> fst r = f ob i \<Longrightarrow>
   (\<forall>j < length (r # rs). fst ((r # rs) ! j) = f ((ob # obs) ! j) (i + int j))"
  by (auto simp: less_Suc_eq_0_disj ac_simps)

lemma stream_spec_fail:
  assumes "stream_spec topic obs (i + 1) (Suc k)
             (s\<lparr>sb_writes := sb_writes s @ [(fill_frame topic ts i d, False)], sb_world := w,
                sb_sleeps := sb_sleeps s @ [b]\<rparr>) x s'"
    and "b \<in> {10, 20}"
  shows "stream_spec topic ((a, ts) # obs) i k s x s'"
proof -
  from assms obtain rs ss where r:
    "sb_writes s' = sb_writes s @ (fill_frame topic ts i d, False) # rs"
    "sb_sleeps s' = sb_sleeps s @ b # ss" "set ss \<subseteq> {10, 20}" "drop_spec (Suc k) (map snd rs) x"
    "length rs \<le> length obs"
    "\<forall>j < length rs. fst (rs ! j) = fill_frame topic (snd (obs ! j)) (i + 1 + int j) TopicData_default"
    "messages_sent_total (sb_metrics s') =
       messages_sent_total (sb_metrics s) + word_of_nat (length (filter snd rs))"
    by (auto simp: stream_spec_def)
  from nth_Cons_frames [OF r(6), of "(fill_frame topic ts i d, False)" "(a, ts)"] r(1-5,7) assms(2)
  show ?thesis unfolding stream_spec_def
    by (intro exI [of _ "(fill_frame topic ts i d, False) # rs"] exI [of _ "b # ss"])
      (simp add: drop_spec_fail fill_frame_any [of topic ts i d])
qed

lemma stream_spec_ok:
  assumes "stream_spec topic obs (i + 1) 0
             (s\<lparr>sb_writes := sb_writes s @ [(fill_frame topic ts i d, True)], sb_world := w,
                sb_metrics := increment_messages_sent (sb_metrics s)\<rparr>) x s'"
    and "k < 3"
  shows "stream_spec topic ((a, ts) # obs) i k s x s'"
proof -
  from assms obtain rs ss where r:
    "sb_writes s' = sb_writes s @ (fill_frame topic ts i d, True) # rs"
    "sb_sleeps s' = sb_sleeps s @ ss" "set ss \<subseteq> {10, 20}" "drop_spec 0 (map snd rs) x"
    "length rs \<le> length obs"
    "\<forall>j < length rs. fst (rs ! j) = fill_frame topic (snd (obs ! j)) (i + 1 + int j) TopicData_default"
    "messages_sent_total (sb_metrics s') =
       messages_sent_total (sb_metrics s) + 1 + word_of_nat (length (filter snd rs))"
    by (auto simp: stream_spec_def increment_messages_sent_def)
  from nth_Cons_frames [OF r(6), of "(fill_frame topic ts i d, True)" "(a, ts)"] r(1-5,7) assms(2)
  show ?thesis unfolding stream_spec_def
    by (intro exI [of _ "(fill_frame topic ts i d, True) # rs"] exI [of _ ss])
      (simp add: drop_spec_ok fill_frame_any [of topic ts i d] ac_simps)
qed

lemma stream_spec_stop: "k < 3 \<Longrightarrow> x \<noteq> Sub_Dropped \<Longrightarrow> stream_spec topic obs i k s x s"
  unfolding stream_spec_def
  by (intro exI [of _ "[]"]) (simp add: drop_spec_Nil)

lemma stream_spec_drop:
  "stream_spec topic ((a, ts) # obs) i 2 s Sub_Dropped
     (s\<lparr>sb_writes := sb_writes s @ [(fill_frame topic ts i d, False)], sb_world := w\<rparr>)"
  unfolding stream_spec_def
  by (intro exI [of _ "[(fill_frame topic ts i d, False)]"] exI [of _ "[]"])
    (simp add: drop_spec_last fill_frame_any [of topic ts i d])

lemma subscribe_loop_spec:
  assumes "k < 3" and "0 \<le> i" and "i + int (length obs) < 2 ^ 31"
  shows "\<exists>x s'. subscribe_loop write topic obs i (int k) d s = Some (x, s') \<and> stream_spec topic obs i k s x s'"
  using assms
proof (induction obs arbitrary: i k d s)
  case Nil
  then show ?case by (simp add: stream_spec_stop)
next
  case (Cons ob obs)
  obtain a ts where ob: "ob = (a, ts)" by force
  let ?d = "fill_frame topic ts i d"
  obtain ok w where wr: "write ?d (sb_world s) = (ok, w)" by force
  have i: "int_plus i 1 = Some (i + 1)" "0 \<le> i + 1" "i + 1 + int (length obs) < 2 ^ 31"
    using Cons.prems by (auto simp: int_plus_def)
  have f: "int_plus (int k) 1 = Some (int (Suc k))" using Cons.prems(1) by (simp add: int_plus_def)
  consider "\<not> a" | "a" "ok" | "a" "\<not> ok" "k = 2" | "a" "\<not> ok" "k < 2" using Cons.prems(1) by linarith
  then show ?case
  proof cases
    case 1
    then show ?thesis using Cons.prems(1) by (simp add: ob stream_spec_stop)
  next
    case 2
    let ?s = "s\<lparr>sb_writes := sb_writes s @ [(?d, True)], sb_world := w,
                 sb_metrics := increment_messages_sent (sb_metrics s)\<rparr>"
    from Cons.IH [of 0 "i + 1" ?d ?s] i obtain x s' where
      "subscribe_loop write topic obs (i + 1) 0 ?d ?s = Some (x, s')" "stream_spec topic obs (i + 1) 0 ?s x s'"
      by auto
    with 2 i(1) wr Cons.prems(1) show ?thesis by (auto simp: ob intro: stream_spec_ok)
  next
    case 3
    with wr f show ?thesis by (simp add: ob kMaxBackpressureRetries_def stream_spec_drop)
  next
    case 4
    then have k: "stream_backoff_ms (int (Suc k)) = Some (10 * 2 ^ k)" "10 * 2 ^ k \<in> {10, 20 :: int}"
      using stream_backoff_exact [of "Suc k"] by (auto simp: less_2_cases_iff)
    let ?s = "s\<lparr>sb_writes := sb_writes s @ [(?d, False)], sb_world := w,
                 sb_sleeps := sb_sleeps s @ [10 * 2 ^ k]\<rparr>"
    from Cons.IH [of "Suc k" "i + 1" ?d ?s] 4 i obtain x s' where
      "subscribe_loop write topic obs (i + 1) (int (Suc k)) ?d ?s = Some (x, s')"
      "stream_spec topic obs (i + 1) (Suc k) ?s x s'"
      by auto
    with 4 i(1) wr f k show ?thesis
      by (auto simp: ob kMaxBackpressureRetries_def simp del: of_nat_Suc intro: stream_spec_fail)
  qed
qed

text \<open>C20: The streaming call of the LIDAR node. For fewer than 2 ^ 31 frames it runs without undefined
  arithmetic. The frames it offers to the writer are numbered consecutively from 0 and carry the
  topic and the time of their iteration, so a frame whose write fails is skipped and never offered
  again; the connection is dropped exactly at the third failed write in a row; the waits are only 10
  and 20 ms; the message counter grows by the successful writes; and the status is OK in every case,
  the dropped connection included.\<close>

theorem Subscribe_correct:
  assumes "length obs < 2 ^ 31"
  shows "\<exists>x s. Subscribe write request obs m w = Some (Status_OK, x, s) \<and>
           (x = Sub_Dropped \<longleftrightarrow> suffix [False, False, False] (map snd (sb_writes s))) \<and>
           (\<forall>pre post. map snd (sb_writes s) = pre @ [False, False, False] @ post \<longrightarrow> post = []) \<and>
           (\<forall>j < length (sb_writes s). fst (sb_writes s ! j) =
              fill_frame (sq_topic request) (snd (obs ! j)) (int j) TopicData_default) \<and>
           set (sb_sleeps s) \<subseteq> {10, 20} \<and>
           messages_sent_total (sb_metrics s) =
             messages_sent_total m + word_of_nat (length (filter snd (sb_writes s)))"
proof -
  let ?s = "\<lparr>sb_writes = [], sb_sleeps = [], sb_metrics = m, sb_world = w\<rparr>"
  have "0 + int (length obs) < 2 ^ 31" using assms by simp
  from subscribe_loop_spec [OF _ _ this, of 0 "write" "sq_topic request" TopicData_default ?s]
  obtain x s where loop: "subscribe_loop write (sq_topic request) obs 0 0 TopicData_default ?s = Some (x, s)"
    and spec: "stream_spec (sq_topic request) obs 0 0 ?s x s" by auto
  from loop have "Subscribe write request obs m w = Some (Status_OK, x, s)" by (simp add: Subscribe_def)
  with spec show ?thesis
    by (intro exI [of _ x] exI [of _ s]) (auto simp: stream_spec_def drop_spec_def)
qed

theorem Subscribe_correct_witness:
  "\<exists>x s. Subscribe (\<lambda>d w. (False, w)) \<lparr>subscriber_id = ''s'', sq_topic = ''lidar'', qos = 0\<rparr>
       [(True, 1), (True, 2), (True, 3), (True, 4)] Metrics_new () = Some (Status_OK, x, s) \<and>
     set (sb_sleeps s) \<subseteq> {10, 20}"
  using Subscribe_correct [of "[(True, 1), (True, 2), (True, 3), (True, 4)]" "\<lambda>d w. (False, w)"
      "\<lparr>subscriber_id = ''s'', sq_topic = ''lidar'', qos = 0\<rparr>" Metrics_new "()"]
  by fastforce

section \<open>The payload\<close>

lemma print_fixed_exact:
  assumes "0 \<le> x" and "0 \<le> y" and "y * 10 ^ p = of_int m" and "\<bar>x - y\<bar> * 10 ^ p < 1 / 2"
  shows "print_fixed p x = print_fixed p y"
proof -
  have "\<bar>of_int m - x * 10 ^ p\<bar> = \<bar>y - x\<bar> * 10 ^ p"
    by (simp add: abs_mult flip: assms(3) left_diff_distrib)
  then have "round_even (x * 10 ^ p) = m"
    using assms(4) by (intro round_even_nearest) (simp add: abs_minus_commute)
  moreover have "round_even (y * 10 ^ p) = m" by (simp add: assms(3))
  ultimately show ?thesis using assms(1,2) by (simp add: print_fixed_def)
qed

lemma double_of_close:
  assumes "0 \<le> x" and "x \<le> 2 ^ 30"
  shows "\<bar>double_of x - x\<bar> \<le> 1 / 2 ^ 22"
proof -
  have "\<bar>x\<bar> / 2 ^ 53 \<le> 1 / 2 ^ 23" using assms by (simp add: field_simps)
  moreover have "(1 :: rat) / 2 ^ 1075 \<le> 1 / 2 ^ 23" by simp
  moreover have "(1 :: rat) / 2 ^ 23 + 1 / 2 ^ 23 = 1 / 2 ^ 22" by simp
  ultimately show ?thesis using double_of_error [of x] by linarith
qed

lemma three_tenths_close: "\<bar>double_of (3 / 10) - 3 / 10\<bar> \<le> 1 / 2 ^ 54" "0 \<le> double_of (3 / 10)"
proof -
  have "double_of (3 / 10) = 5404319552844595 / 18014398509481984" by code_simp
  then show "\<bar>double_of (3 / 10) - 3 / 10\<bar> \<le> 1 / 2 ^ 54" "0 \<le> double_of (3 / 10)" by simp_all
qed

lemma frame_y_close:
  assumes "0 \<le> i" and "i < 2 ^ 31"
  shows "\<bar>double_mult (of_int i) (double_of (3 / 10)) - of_int i * (3 / 10)\<bar> * 10 ^ 6 < 1 / 2"
proof -
  define a where "a = double_of (3 / 10)"
  have i: "(0 :: rat) \<le> of_int i" "(of_int i :: rat) \<le> 2 ^ 31"
    using assms by (simp_all add: of_int_le_numeral_power_cancel_iff)
  have a: "\<bar>a - 3 / 10\<bar> \<le> 1 / 2 ^ 54" "0 \<le> a" using three_tenths_close by (simp_all add: a_def)
  have "\<bar>of_int i * a - of_int i * (3 / 10)\<bar> = of_int i * \<bar>a - 3 / 10\<bar>"
    using i(1) by (simp only: abs_mult abs_of_nonneg flip: right_diff_distrib)
  also have "\<dots> \<le> 2 ^ 31 * (1 / 2 ^ 54)" using i a by (intro mult_mono) auto
  finally have e1: "\<bar>of_int i * a - of_int i * (3 / 10)\<bar> \<le> 1 / 2 ^ 23" by simp
  have "(1 :: rat) / 2 ^ 54 \<le> 1 / 10" by simp
  then have "a \<le> 1 / 2" using a by linarith
  then have "of_int i * a \<le> 2 ^ 31 * (1 / 2)" using i a by (intro mult_mono) auto
  then have "of_int i * a \<le> 2 ^ 30" "0 \<le> of_int i * a" using i a by simp_all
  then have e2: "\<bar>double_of (of_int i * a) - of_int i * a\<bar> \<le> 1 / 2 ^ 22" by (intro double_of_close)
  have "\<bar>double_mult (of_int i) a - of_int i * (3 / 10)\<bar> \<le> 1 / 2 ^ 22 + 1 / 2 ^ 23"
    unfolding double_mult_def using e1 e2 by linarith
  then show ?thesis unfolding a_def by simp
qed

text \<open>C31: The payload of a frame is exact: for every frame number below 2 ^ 31 the text has the
  decimals of half and of three tenths of the number, although 0.3 has no exact double.\<close>

theorem frame_payload_exact:
  assumes "0 \<le> i" and "i < 2 ^ 31"
  shows "frame_payload i =
     ''{'' @ [CHR 0x22] @ ''x'' @ [CHR 0x22] @ '':'' @ print_fixed 6 (of_int i / 2) @ '','' @
     [CHR 0x22] @ ''y'' @ [CHR 0x22] @ '':'' @ print_fixed 6 (3 * of_int i / 10) @ ''}''"
proof -
  have half: "double_of (5 / 10) = 1 / 2" using double_of_exact [of "1 / 2" 1 1] by simp
  have "double_of (of_int i * (1 / 2)) = of_int i * (1 / 2)"
    by (rule double_of_exact [of _ 1 i]) (use assms in auto)
  then have x: "double_mult (of_int i) (double_of (5 / 10)) = of_int i / 2"
    by (simp only: double_mult_def half times_divide_eq_right mult_1_right)
  have "0 \<le> double_mult (of_int i) (double_of (3 / 10))"
    using three_tenths_close assms by (simp add: double_mult_def double_of_nonneg)
  moreover have "3 * of_int i / 10 * 10 ^ 6 = (of_int (300000 * i) :: rat)" by simp
  ultimately have "print_fixed 6 (double_mult (of_int i) (double_of (3 / 10))) = print_fixed 6 (3 * of_int i / 10)"
    using frame_y_close [OF assms] assms
    by (intro print_fixed_exact [of _ _ _ "300000 * i"]) (simp_all add: mult.commute)
  with x show ?thesis by (simp only: frame_payload_def)
qed

theorem frame_payload_exact_witness:
  "frame_payload 7 = ''{'' @ [CHR 0x22] @ ''x'' @ [CHR 0x22] @ '':3.500000,'' @
     [CHR 0x22] @ ''y'' @ [CHR 0x22] @ '':2.100000}''"
proof -
  have "print_fixed 6 (7 / 2) = ''3.500000''" "print_fixed 6 (21 / 10) = ''2.100000''" by code_simp+
  with frame_payload_exact [of 7] show ?thesis by simp
qed

section \<open>The control stream\<close>

abbreviation echo :: "ControlStreamRequest \<Rightarrow> ControlStreamResponse" where
  "echo req \<equiv> ControlStreamResponse_default\<lparr>cr_session_id := cq_session_id req\<rparr>"

lemma control_loop_echo:
  "\<exists>out w'. control_loop write reqs 0 w = Some (out, [], w') \<and>
     map fst out = map echo (take (length out) reqs) \<and> list_all snd (butlast out) \<and>
     (length out = length reqs \<or> out \<noteq> [] \<and> \<not> snd (last out))"
proof (induction reqs arbitrary: w)
  case (Cons req reqs)
  obtain ok w1 where wr: "write (echo req) w = (ok, w1)" by force
  from Cons.IH [of w1] obtain out w' where
    "control_loop write reqs 0 w1 = Some (out, [], w')" "map fst out = map echo (take (length out) reqs)"
    "list_all snd (butlast out)" "length out = length reqs \<or> out \<noteq> [] \<and> \<not> snd (last out)" by blast
  with wr show ?case
    by (cases ok) (auto simp: kMaxPending_def int_plus_def Let_def)
qed simp

text \<open>The control stream answers every request with its session id, in order, until the stream ends
  or a write fails, returns OK and never drops a request: the counter of pending commands is zero
  whenever a request is read, so the backpressure branch is dead code.\<close>

lemma ControlStream_echoes:
  "\<exists>out w'. ControlStream write reqs w = Some (Status_OK, out, [], w') \<and>
     map fst out =
       map (\<lambda>req. ControlStreamResponse_default\<lparr>cr_session_id := cq_session_id req\<rparr>) (take (length out) reqs) \<and>
     list_all snd (butlast out) \<and>
     (length out = length reqs \<or> out \<noteq> [] \<and> \<not> snd (last out))"
  using control_loop_echo [of "write" reqs w] unfolding ControlStream_def by auto

end
