(* ===== verification/Registry_Clients.thy ===== *)
theory Registry_Clients
  imports Registry_Service Node_Base Lidar_Emulator
begin

text \<open>
  The two clients of the registry, the node base class and the LIDAR node, against the registry's
  handlers, through a gRPC channel. The channel is code outside the repository; what the clients
  rely on is stated as hypotheses on it. A gRPC server sends a response message only together with
  an OK status; on any other status the client's response object is left as it was passed in.
\<close>

section \<open>What a channel may do\<close>

text \<open>
  The weak contract, for safety: on a non-OK status, whether it comes from the handler or from the
  transport, the response is untouched; an OK status comes with a response that the handler can
  give with an OK status. Nothing is said about delivery, or about what other clients do to the
  registry meanwhile.
\<close>

definition grpc_unary ::
    "('q \<Rightarrow> 'r \<Rightarrow> bool) \<Rightarrow> ('q \<Rightarrow> 'r \<Rightarrow> 'w \<Rightarrow> Status \<times> 'r \<times> 'w) \<Rightarrow> bool" where
  "grpc_unary answers stub \<longleftrightarrow>
     (\<forall>req resp w. case stub req resp w of (st, r, w') \<Rightarrow>
        if status_ok st then answers req r else r = resp)"

definition heartbeat_answers :: "HeartbeatRequest \<Rightarrow> HeartbeatResponse \<Rightarrow> bool" where
  "heartbeat_answers req r \<longleftrightarrow>
     (\<exists>now s st s'. Heartbeat req HeartbeatResponse_default now s = (st, r, s') \<and> status_ok st)"

text \<open>What a delivered call does: the handler runs on a fresh response, which reaches the client
  only with an OK status.\<close>

definition deliver :: "'r \<Rightarrow> Status \<times> 'r \<times> 's \<Rightarrow> Status \<times> 'r \<times> 's" where
  "deliver resp x = (status_of x, if status_ok (status_of x) then response_of x else resp, service_of x)"

text \<open>The strong contract, for liveness: the registry is reachable and every call is delivered.\<close>

locale registry_channel =
  fixes reg :: "RegistryServiceImpl register_call"
    and hb :: "RegistryServiceImpl heartbeat_call"
  assumes reg_delivered:
      "\<exists>rnd now. reg req resp s = deliver resp (Register req RegisterResponse_default rnd now s)"
    and hb_delivered:
      "\<exists>now. hb hreq hresp s = deliver hresp (Heartbeat hreq HeartbeatResponse_default now s)"
begin

lemma hb_unknown:
  assumes "hq_node_id req \<noteq> []" and "lookup_node (rs_node_table s) (hq_node_id req) = None"
  shows "\<exists>st. hb req resp s = (st, resp, s) \<and> \<not> status_ok st"
proof -
  obtain now where "hb req resp s = deliver resp (Heartbeat req HeartbeatResponse_default now s)"
    using hb_delivered by blast
  with assms show ?thesis
    by (simp add: deliver_def Heartbeat_def update_heartbeat_def lookup_node_def)
qed

lemma hb_known:
  assumes "hq_node_id req \<noteq> []" and "lookup_node (rs_node_table s) (hq_node_id req) = Some e"
  shows "\<exists>st r s' now. hb req resp s = (st, r, s') \<and> status_ok st \<and> hr_success r \<and>
           rs_is_running s' = rs_is_running s \<and>
           lookup_node (rs_node_table s') (hq_node_id req) =
             Some (touch_entry (hq_cpu_usage req) (hq_memory_usage req) now e)"
proof -
  obtain now where d: "hb req resp s = deliver resp (Heartbeat req HeartbeatResponse_default now s)"
    using hb_delivered by blast
  have "Heartbeat req HeartbeatResponse_default now s =
      (Status_OK,
       HeartbeatResponse_default\<lparr>hr_success := True, hr_missed_heartbeats := 0, hr_should_reconnect := False\<rparr>,
       s\<lparr>rs_node_table := (rs_node_table s)\<lparr>nt_nodes := um_modify (hq_node_id req)
          (touch_entry (hq_cpu_usage req) (hq_memory_usage req) now) (nt_nodes (rs_node_table s))\<rparr>\<rparr>)"
    using assms by (simp add: Heartbeat_def update_heartbeat_def lookup_node_def)
  moreover have "um_find (hq_node_id req) (um_modify (hq_node_id req)
      (touch_entry (hq_cpu_usage req) (hq_memory_usage req) now) (nt_nodes (rs_node_table s))) =
      Some (touch_entry (hq_cpu_usage req) (hq_memory_usage req) now e)"
    using assms(2) by (simp add: lookup_node_def um.find_modify)
  ultimately show ?thesis using d by (auto simp: deliver_def lookup_node_def)
qed

lemma reg_absent:
  assumes "rs_is_running s" and "rq_node_info req = Some i" and "node_id i \<noteq> []"
    and "lookup_node (rs_node_table s) (node_id i) = None"
    and "length (nt_nodes (rs_node_table s)) < unat (nt_max_nodes (rs_node_table s))"
  shows "\<exists>st r s' rnd now. reg req resp s = (st, r, s') \<and> status_ok st \<and> rr_success r \<and>
           rr_session_id r = make_session_id i rnd \<and> rs_is_running s' \<and>
           lookup_node (rs_node_table s') (node_id i) = Some (fresh_entry i (make_session_id i rnd) now)"
proof -
  obtain rnd now where d: "reg req resp s = deliver resp (Register req RegisterResponse_default rnd now s)"
    using reg_delivered by blast
  let ?x = "Register req RegisterResponse_default rnd now s"
  have "fst (register_node i (make_session_id i rnd) now (rs_node_table s))"
    using assms(4,5) by (simp add: register_node_success)
  then have "status_of ?x = Status_OK" "rr_success (response_of ?x)"
    "rr_session_id (response_of ?x) = make_session_id i rnd" "rs_is_running (service_of ?x)"
    "lookup_node (rs_node_table (service_of ?x)) (node_id i) = Some (fresh_entry i (make_session_id i rnd) now)"
    using assms(1-3) by (simp_all add: Register_def Let_def split_beta lookup_register)
  then show ?thesis unfolding d deliver_def by (cases ?x) auto
qed

lemma reg_present:
  assumes "lookup_node (rs_node_table s) (node_id i) \<noteq> None" and "rq_node_info req = Some i"
  shows "\<exists>st s'. reg req resp s = (st, resp, s') \<and> \<not> status_ok st \<and> rs_is_running s' = rs_is_running s \<and>
           lookup_node (rs_node_table s') = lookup_node (rs_node_table s)"
proof -
  obtain rnd now where d: "reg req resp s = deliver resp (Register req RegisterResponse_default rnd now s)"
    using reg_delivered by blast
  let ?x = "Register req RegisterResponse_default rnd now s"
  have "\<not> fst (register_node i (make_session_id i rnd) now (rs_node_table s))"
    using assms(1) by (simp add: register_node_success)
  then have "\<not> status_ok (status_of ?x)"
    "lookup_node (rs_node_table (service_of ?x)) = lookup_node (rs_node_table s)"
    using assms(2) by (auto simp: Register_def Let_def split_beta lookup_register)
  then show ?thesis using d by (auto simp: deliver_def)
qed

end

text \<open>The channel inside one process, with a fixed clock and random number.\<close>

definition direct_register :: "int \<Rightarrow> time_point \<Rightarrow> RegistryServiceImpl register_call" where
  "direct_register rnd now req resp s = deliver resp (Register req RegisterResponse_default rnd now s)"

definition direct_heartbeat :: "time_point \<Rightarrow> RegistryServiceImpl heartbeat_call" where
  "direct_heartbeat now req resp s = deliver resp (Heartbeat req HeartbeatResponse_default now s)"

interpretation direct: registry_channel "direct_register rnd now" "direct_heartbeat now" for rnd now
  by unfold_locales (auto simp: direct_register_def direct_heartbeat_def)

section \<open>The LIDAR node recovers\<close>

context registry_channel
begin

text \<open>A failing heartbeat of an unregistered node counts up and backs off.\<close>

lemma beat_unknown:
  assumes "nid \<noteq> []" and "lookup_node (rs_node_table s) nid = None"
    and "hv_consecutive_failures v = int k" and "k < 5"
  shows "lidar_beat hb nid ts v s =
     Some (v\<lparr>hv_consecutive_failures := int (Suc k),
            hv_needs_reregister := hv_needs_reregister v \<or> k = 4\<rparr>, s, 500 * 2 ^ k)"
proof -
  let ?req = "lidar_heartbeat_request nid (hv_session_id v) ts"
  obtain st where "hb ?req HeartbeatResponse_default s = (st, HeartbeatResponse_default, s)" "\<not> status_ok st"
    using hb_unknown [of ?req s HeartbeatResponse_default] assms
    by (auto simp: lidar_heartbeat_request_def)
  moreover have "lidar_backoff_ms (int (Suc k)) = Some (500 * 2 ^ k)"
    using lidar_backoff_exact [of "Suc k"] assms(4) by simp
  moreover have "int_plus (hv_consecutive_failures v) 1 = Some (int (Suc k))"
    using assms(3,4) by (simp add: int_plus_def)
  ultimately show ?thesis using assms(4)
    by (auto simp: lidar_beat_def lidar_max_retries_def Let_def simp del: of_nat_Suc)
qed

lemma beat_known:
  assumes "nid \<noteq> []" and "lookup_node (rs_node_table s) nid = Some e"
  shows "\<exists>s' e'. lidar_beat hb nid ts v s = Some (v\<lparr>hv_consecutive_failures := 0\<rparr>, s', 500) \<and>
           lookup_node (rs_node_table s') nid = Some e' \<and> session_id e' = session_id e \<and> info e' = info e \<and>
           missed_heartbeats e' = 0"
proof -
  let ?req = "lidar_heartbeat_request nid (hv_session_id v) ts"
  have "hq_node_id ?req = nid" by (simp add: lidar_heartbeat_request_def)
  with hb_known [of ?req s e HeartbeatResponse_default] assms obtain st r s' now where
    "hb ?req HeartbeatResponse_default s = (st, r, s')" "status_ok st" "hr_success r"
    "lookup_node (rs_node_table s') nid =
       Some (touch_entry (hq_cpu_usage ?req) (hq_memory_usage ?req) now e)"
    by auto
  then show ?thesis by (auto simp: lidar_beat_def touch_entry_def)
qed

text \<open>The iteration that re-registers: register, then a heartbeat that succeeds.\<close>

lemma iteration_reregisters:
  assumes "hv_needs_reregister v" and "rs_is_running s" and "nid \<noteq> []"
    and "lookup_node (rs_node_table s) nid = None"
    and "length (nt_nodes (rs_node_table s)) < unat (nt_max_nodes (rs_node_table s))"
  shows "\<exists>sid s' e. lidar_iteration reg hb nid prt ts v s =
           Some (v\<lparr>hv_session_id := sid, hv_needs_reregister := False, hv_consecutive_failures := 0\<rparr>, s', 500) \<and>
           lookup_node (rs_node_table s') nid = Some e \<and> session_id e = sid \<and>
           info e = lidar_info nid prt \<and> missed_heartbeats e = 0"
proof -
  let ?i = "lidar_info nid prt"
  let ?req = "RegisterRequest_default\<lparr>rq_node_info := Some ?i\<rparr>"
  have i: "node_id ?i = nid" by (simp add: lidar_info_def)
  obtain st r s1 rnd now where r: "reg ?req RegisterResponse_default s = (st, r, s1)" "status_ok st" "rr_success r"
      "rr_session_id r = make_session_id ?i rnd"
      "lookup_node (rs_node_table s1) nid = Some (fresh_entry ?i (make_session_id ?i rnd) now)"
    using reg_absent [of s ?req ?i RegisterResponse_default] assms i by auto
  then have t: "try_register_node reg nid prt (hv_session_id v) s = (True, make_session_id ?i rnd, s1)"
    by (simp add: try_register_node_def)
  let ?v = "v\<lparr>hv_session_id := make_session_id ?i rnd, hv_needs_reregister := False, hv_consecutive_failures := 0\<rparr>"
  from beat_known [OF assms(3) r(5), of ts ?v] obtain s' e where
    "lidar_beat hb nid ts ?v s1 = Some (?v, s', 500)" "lookup_node (rs_node_table s') nid = Some e"
    "session_id e = make_session_id ?i rnd" "info e = ?i" "missed_heartbeats e = 0"
    by (auto simp: fresh_entry_def)
  with t assms(1) show ?thesis by (auto simp: lidar_iteration_def)
qed

text \<open>Five iterations of an unregistered node.\<close>

lemma five_failures:
  assumes "nid \<noteq> []" and "lookup_node (rs_node_table s) nid = None"
    and "list_all (\<lambda>(a, b, _). a \<and> b) obs" and "length obs = 5 - k" and "k < 5"
    and "hv_consecutive_failures v = int k" and "\<not> hv_needs_reregister v"
  shows "run_heartbeat_loop reg hb nid prt (obs @ rest) v s =
     do { (v', s', sleeps) \<leftarrow> run_heartbeat_loop reg hb nid prt rest
            (v\<lparr>hv_consecutive_failures := 5, hv_needs_reregister := True\<rparr>) s;
          Some (v', s', map (\<lambda>j. 500 * 2 ^ j) [k ..< 5] @ sleeps) }"
  using assms(3-7)
proof (induction obs arbitrary: k v)
  case (Cons ob obs)
  obtain a b ts where ob: "ob = (a, b, ts)" by (metis prod_cases3)
  let ?v = "v\<lparr>hv_consecutive_failures := int (Suc k), hv_needs_reregister := k = 4\<rparr>"
  have it: "lidar_iteration reg hb nid prt ts v s = Some (?v, s, 500 * 2 ^ k)"
    using beat_unknown [OF assms(1,2) Cons.prems(4) Cons.prems(3), of ts] Cons.prems(5)
    by (simp add: lidar_iteration_def)
  have upt: "map (\<lambda>j. 500 * 2 ^ j) [k ..< 5] = (500 * 2 ^ k :: int) # map (\<lambda>j. 500 * 2 ^ j) [Suc k ..< 5]"
    using Cons.prems(3) by (simp add: upt_conv_Cons)
  show ?case
  proof (cases "k = 4")
    case True
    with Cons.prems have "obs = []" by simp
    with True it Cons.prems(1) upt show ?thesis by (auto simp: ob split: bind_splits)
  next
    case False
    have "list_all (\<lambda>(a, b, _). a \<and> b) obs" "length obs = 5 - Suc k" "Suc k < 5"
      "hv_consecutive_failures ?v = int (Suc k)" "\<not> hv_needs_reregister ?v"
      using Cons.prems False by auto
    from Cons.IH [OF this] it Cons.prems(1) upt show ?thesis
      by (auto simp: ob split: bind_splits simp del: of_nat_Suc upt_rec_numeral)
  qed
qed simp

end

context registry_channel
begin

lemma beats_known:
  assumes "nid \<noteq> []" and "list_all (\<lambda>(a, b, _). a \<and> b) obs"
    and "hv_consecutive_failures v = 0" and "\<not> hv_needs_reregister v"
    and "lookup_node (rs_node_table s) nid = Some e"
  shows "\<exists>s' e'. run_heartbeat_loop reg hb nid prt obs v s = Some (v, s', replicate (length obs) 500) \<and>
           lookup_node (rs_node_table s') nid = Some e' \<and> session_id e' = session_id e \<and> info e' = info e \<and>
           (missed_heartbeats e = 0 \<longrightarrow> missed_heartbeats e' = 0)"
  using assms(2,5)
proof (induction obs arbitrary: s e)
  case (Cons ob obs)
  obtain a b ts where ob: "ob = (a, b, ts)" by (metis prod_cases3)
  have v: "v\<lparr>hv_consecutive_failures := 0\<rparr> = v" using assms(3) by simp
  obtain s1 e1 where 1: "lidar_beat hb nid ts v s = Some (v, s1, 500)"
      "lookup_node (rs_node_table s1) nid = Some e1" "session_id e1 = session_id e" "info e1 = info e"
      "missed_heartbeats e1 = 0"
    using beat_known [OF assms(1) Cons.prems(2), of ts v] unfolding v by blast
  with Cons.IH [OF _ 1(2)] Cons.prems(1) assms(4) show ?case
    by (auto simp: ob lidar_iteration_def)
qed simp

end

definition demo_on :: "(bool \<times> bool \<times> u64) list" where
  "demo_on = replicate 6 (True, True, 0)"

lemma iteration_still_registered:
  assumes "registry_channel reg hb" and "hv_needs_reregister v"
    and "lookup_node (rs_node_table s) nid \<noteq> None"
  shows "\<exists>s'. lidar_iteration reg hb nid prt ts v s = Some (v, s', 2000) \<and>
           lookup_node (rs_node_table s') = lookup_node (rs_node_table s)"
proof -
  let ?i = "lidar_info nid prt"
  let ?req = "RegisterRequest_default\<lparr>rq_node_info := Some ?i\<rparr>"
  have "lookup_node (rs_node_table s) (node_id ?i) \<noteq> None" using assms(3) by (simp add: lidar_info_def)
  then obtain st s' where "reg ?req RegisterResponse_default s = (st, RegisterResponse_default, s')"
      "\<not> status_ok st" "lookup_node (rs_node_table s') = lookup_node (rs_node_table s)"
    using registry_channel.reg_present [OF assms(1), of s ?i ?req RegisterResponse_default] by auto
  then show ?thesis using assms(2) by (simp add: lidar_iteration_def try_register_node_def)
qed

section \<open>The node base class does not recover\<close>

lemma body_never_reconnects:
  assumes "grpc_unary heartbeat_answers hb" and "nd_registry_stub n"
  shows "\<exists>w'. heartbeat_body hb reg ob n 0 w = Inr (Continue, n, 0, w', [])"
proof -
  obtain cpu mem conn where p: "ob_payload ob = (cpu, mem, conn)" by (metis prod_cases3)
  let ?req = "HeartbeatRequest_default\<lparr>hq_node_id := nd_node_id n, hq_session_id := nd_session_id n,
                hq_timestamp := ob_timestamp ob, hq_cpu_usage := cpu, hq_memory_usage := mem,
                hq_active_connections := conn\<rparr>"
  obtain st r w' where c: "hb ?req HeartbeatResponse_default w = (st, r, w')" by (metis prod_cases3)
  have a: "if status_ok st then heartbeat_answers ?req r else r = HeartbeatResponse_default"
    using assms(1) c unfolding grpc_unary_def by (metis (mono_tags, lifting) case_prod_conv)
  have "if status_ok st then hr_success r else \<not> hr_should_reconnect r"
  proof (cases "status_ok st")
    case True
    with a obtain now s st' s' where h: "Heartbeat ?req HeartbeatResponse_default now s = (st', r, s')" "status_ok st'"
      by (auto simp: heartbeat_answers_def)
    with Heartbeat_ok_response [of ?req HeartbeatResponse_default now s] True show ?thesis by simp
  qed (use a in \<open>simp add: HeartbeatResponse_default_def\<close>)
  with c p assms(2) show ?thesis
    by (auto simp: heartbeat_body_def Let_def split: if_splits)
qed

section \<open>The base class registers and deregisters\<close>

text \<open>The contract of a channel over which a node can also deregister.\<close>

locale registry_link = registry_channel +
  fixes dereg :: "RegistryServiceImpl deregister_call"
  assumes dereg_delivered: "dereg dreq dresp s = deliver dresp (Deregister dreq DeregisterResponse_default s)"
begin

lemma dereg_known:
  assumes "lookup_node (rs_node_table s) (dq_node_id req) = Some e"
  shows "\<exists>r s'. dereg req resp s = (Status_OK, r, s') \<and> dr_success r \<and>
           lookup_node (rs_node_table s') = (lookup_node (rs_node_table s))(dq_node_id req := None)"
  using assms
  by (auto simp: dereg_delivered deliver_def Deregister_def deregister_node_def lookup_node_def fun_eq_iff um.find_erase)

lemma start_registers:
  assumes "\<not> nd_is_running n" and "rs_is_running s" and "node_id i \<noteq> []"
    and "lookup_node (rs_node_table s) (node_id i) = None"
    and "length (nt_nodes (rs_node_table s)) < unat (nt_max_nodes (rs_node_table s))"
  shows "\<exists>s' rnd now. Node_start reg i n s =
           (True, n\<lparr>nd_registry_channel := True, nd_registry_stub := True, nd_session_id := make_session_id i rnd,
              nd_heartbeat_interval_ms := 1000, nd_is_registered := True, nd_heartbeat_thread := Joinable False,
              nd_is_running := True\<rparr>, s') \<and>
           rs_node_table s' = snd (register_node i (make_session_id i rnd) now (rs_node_table s))"
proof -
  let ?req = "RegisterRequest_default\<lparr>rq_node_info := Some i\<rparr>"
  obtain rnd now where d: "reg ?req RegisterResponse_default s =
      deliver RegisterResponse_default (Register ?req RegisterResponse_default rnd now s)"
    using reg_delivered by blast
  have "fst (register_node i (make_session_id i rnd) now (rs_node_table s))"
    using assms(4,5) by (simp add: register_node_success)
  then have "Register ?req RegisterResponse_default rnd now s =
      (Status_OK, RegisterResponse_default\<lparr>rr_success := True, rr_session_id := make_session_id i rnd,
         rr_heartbeat_interval := 1000, rr_error_message := ''''\<rparr>,
       s\<lparr>rs_node_table := snd (register_node i (make_session_id i rnd) now (rs_node_table s))\<rparr>)"
    using assms(2,3) by (simp add: Register_def Let_def split_beta)
  with d assms(1) show ?thesis
    by (intro exI [of _ "s\<lparr>rs_node_table := snd (register_node i (make_session_id i rnd) now (rs_node_table s))\<rparr>"]
        exI [of _ rnd] exI [of _ now]) (simp add: Node_start_def deliver_def)
qed

end

definition direct_deregister :: "RegistryServiceImpl deregister_call" where
  "direct_deregister req resp s = deliver resp (Deregister req DeregisterResponse_default s)"

interpretation direct_link: registry_link "direct_register rnd now" "direct_heartbeat now" direct_deregister for rnd now
  by unfold_locales (simp add: direct_deregister_def)

end
