(* ===== verification/Metrics_Endpoint.thy ===== *)
theory Metrics_Endpoint
  imports Lidar_Emulator "HOL-Library.Sublist"
begin

text \<open>
  The metrics thread of \<^verbatim>\<open>examples/lidar_emulator.cpp\<close>: a TCP server on port 9090 that answers every
  connection with the Prometheus text. The results of the system calls are what the thread observes,
  and the calls it makes are its output; file descriptors are checked against a table of the open ones.
\<close>

section \<open>The thread\<close>

text \<open>The system calls with their arguments; \<^verbatim>\<open>socket\<close> and \<^verbatim>\<open>accept\<close> with the descriptor they returned.\<close>

datatype syscall =
    Sys_socket int
  | Sys_setsockopt int
  | Sys_bind int nat
  | Sys_listen int nat
  | Sys_accept int int
  | Sys_read int nat
  | Sys_write int string
  | Sys_close int

text \<open>
  A \<^verbatim>\<open>write\<close> to a connection that the peer has reset raises SIGPIPE, for which the program has
  no handler, so the process ends; otherwise the result, a count or an error, is ignored.
\<close>

datatype write_result = Wrote nat | WriteError | BrokenPipe

record setup_obs =
  so_socket :: int
  so_bind :: int
  so_listen :: int

text \<open>One iteration of the loop observes \<^verbatim>\<open>g_running\<close>, the result of \<^verbatim>\<open>accept\<close>, the metrics and the result of \<^verbatim>\<open>write\<close>.\<close>

record serve_obs =
  sv_g_running :: bool
  sv_accept :: int
  sv_metrics :: Metrics
  sv_write :: write_result

datatype metrics_exit = ME_NoSocket | ME_NotBound | ME_NotListening | ME_Serving | ME_Stopped | ME_Killed

definition metrics_port :: nat where
  "metrics_port = 9090"

fun metrics_loop :: "int \<Rightarrow> serve_obs list \<Rightarrow> syscall list \<times> metrics_exit" where
  "metrics_loop server_fd [] = ([], ME_Serving)"
| "metrics_loop server_fd (ob # obs) =
     (if \<not> sv_g_running ob then ([Sys_close server_fd], ME_Stopped)
      else
        let client_fd = sv_accept ob
        in if client_fd < 0 then
             let (cs, x) = metrics_loop server_fd obs
             in (Sys_accept server_fd client_fd # cs, x)
           else
             let response = metrics_http_response (sv_metrics ob);
                 request = [Sys_accept server_fd client_fd, Sys_read client_fd 1024, Sys_write client_fd response]
             in if sv_write ob = BrokenPipe then (request, ME_Killed)
                else let (cs, x) = metrics_loop server_fd obs
                     in (request @ Sys_close client_fd # cs, x))"

definition metrics_thread :: "setup_obs \<Rightarrow> serve_obs list \<Rightarrow> syscall list \<times> metrics_exit" where
  "metrics_thread st obs =
     (let server_fd = so_socket st
      in if server_fd < 0 then ([Sys_socket server_fd], ME_NoSocket)
         else
           let opened = [Sys_socket server_fd, Sys_setsockopt server_fd, Sys_bind server_fd metrics_port]
           in if so_bind st < 0 then (opened @ [Sys_close server_fd], ME_NotBound)
              else if so_listen st < 0 then (opened @ [Sys_listen server_fd 3, Sys_close server_fd], ME_NotListening)
              else let (cs, x) = metrics_loop server_fd obs
                   in (opened @ Sys_listen server_fd 3 # cs, x))"

section \<open>File descriptors\<close>

text \<open>
  The table of open descriptors: a call on a descriptor that is not open is an error (None), a
  descriptor that \<^verbatim>\<open>socket\<close> or \<^verbatim>\<open>accept\<close> returns is opened, a negative result opens nothing.
\<close>

definition fd_open :: "int \<Rightarrow> int set \<Rightarrow> int set option" where
  "fd_open r fds = (if r < 0 then Some fds else if r \<in> fds then None else Some (insert r fds))"

definition fd_use :: "int \<Rightarrow> int set \<Rightarrow> int set option" where
  "fd_use d fds = (if d \<in> fds then Some fds else None)"

fun fd_step :: "syscall \<Rightarrow> int set \<Rightarrow> int set option" where
  "fd_step (Sys_socket r) fds = fd_open r fds"
| "fd_step (Sys_setsockopt d) fds = fd_use d fds"
| "fd_step (Sys_bind d p) fds = fd_use d fds"
| "fd_step (Sys_listen d n) fds = fd_use d fds"
| "fd_step (Sys_accept d r) fds = (if d \<in> fds then fd_open r fds else None)"
| "fd_step (Sys_read d n) fds = fd_use d fds"
| "fd_step (Sys_write d s) fds = fd_use d fds"
| "fd_step (Sys_close d) fds = (if d \<in> fds then Some (fds - {d}) else None)"

fun fd_run :: "syscall list \<Rightarrow> int set \<Rightarrow> int set option" where
  "fd_run [] fds = Some fds"
| "fd_run (c # cs) fds = (case fd_step c fds of None \<Rightarrow> None | Some fds1 \<Rightarrow> fd_run cs fds1)"

text \<open>The operating system returns a descriptor that is not open; while the loop runs the thread has
  only the listening socket.\<close>

definition fresh_fds :: "setup_obs \<Rightarrow> serve_obs list \<Rightarrow> bool" where
  "fresh_fds st obs \<longleftrightarrow> (\<forall>ob \<in> set obs. sv_accept ob \<noteq> so_socket st)"

fun responses :: "syscall list \<Rightarrow> string list" where
  "responses [] = []"
| "responses (Sys_write d s # cs) = s # responses cs"
| "responses (c # cs) = responses cs"

fun accepted :: "syscall list \<Rightarrow> int list" where
  "accepted [] = []"
| "accepted (Sys_accept d r # cs) = (if r < 0 then accepted cs else r # accepted cs)"
| "accepted (c # cs) = accepted cs"

lemma fd_run_append: "fd_run (cs @ ds) fds = (case fd_run cs fds of None \<Rightarrow> None | Some fds1 \<Rightarrow> fd_run ds fds1)"
  by (induction cs arbitrary: fds) (simp_all split: option.split)

definition open_at :: "int \<Rightarrow> metrics_exit \<Rightarrow> int set \<Rightarrow> bool" where
  "open_at server_fd x fds \<longleftrightarrow>
     (case x of ME_Serving \<Rightarrow> fds = {server_fd}
      | ME_Killed \<Rightarrow> True
      | _ \<Rightarrow> fds = {})"

lemma metrics_loop_fds:
  assumes "\<forall>ob \<in> set obs. sv_accept ob \<noteq> server_fd" and "metrics_loop server_fd obs = (cs, x)"
  shows "\<exists>fds. fd_run cs {server_fd} = Some fds \<and> open_at server_fd x fds"
  using assms
proof (induction obs arbitrary: cs x)
  case Nil
  then show ?case by (auto simp: open_at_def)
next
  case (Cons ob obs)
  obtain cs1 x1 where rest: "metrics_loop server_fd obs = (cs1, x1)" by force
  have other: "sv_accept ob \<noteq> server_fd" using Cons.prems(1) by simp
  then have removed: "insert (sv_accept ob) {server_fd} - {sv_accept ob} = {server_fd}" by auto
  have "\<forall>ob \<in> set obs. sv_accept ob \<noteq> server_fd" using Cons.prems(1) by simp
  then have "\<exists>fds. fd_run cs1 {server_fd} = Some fds \<and> open_at server_fd x1 fds"
    using rest by (rule Cons.IH)
  with Cons.prems(2) rest other removed show ?case
    by (auto simp: Let_def open_at_def fd_open_def fd_use_def split: if_splits)
qed
section \<open>What a client reads\<close>

text \<open>A client splits the head of the response into lines up to the empty one, looks for the length and
  checks that the rest has it.\<close>

fun take_line :: "string \<Rightarrow> (string \<times> string) option" where
  "take_line [] = None"
| "take_line [c] = None"
| "take_line (c # d # cs) =
     (if c = CHR 0x0D \<and> d = CHR 0x0A then Some ([], cs)
      else map_option (\<lambda>(l, r). (c # l, r)) (take_line (d # cs)))"

lemma take_line_shorter: "take_line s = Some (l, r) \<Longrightarrow> length r < length s"
  by (induction s arbitrary: l r rule: take_line.induct) (fastforce split: if_splits)+

function http_head :: "string \<Rightarrow> (string list \<times> string) option" where
  "http_head s =
     (case take_line s of
        None \<Rightarrow> None
      | Some (l, r) \<Rightarrow> if l = [] then Some ([], r) else map_option (\<lambda>(ls, b). (l # ls, b)) (http_head r))"
  by auto
termination
  by (relation "measure length") (auto dest: take_line_shorter)

declare http_head.simps [simp del]

definition http_body :: "string \<Rightarrow> string option" where
  "http_body s =
     (case http_head s of
        None \<Rightarrow> None
      | Some (ls, b) \<Rightarrow>
          (case List.map_filter (after_prefix ''Content-Length: '') ls of
             [] \<Rightarrow> None
           | n # ns \<Rightarrow> if int_of_string n = int (length b) then Some b else None))"

lemma take_line_crlf: "CHR 0x0D \<notin> set l \<Longrightarrow> take_line (l @ crlf @ r) = Some (l, r)"
proof (induction l)
  case Nil
  then show ?case by (simp add: crlf_def)
next
  case (Cons c l)
  then have "take_line (l @ crlf @ r) = Some (l, r)" "c \<noteq> CHR 0x0D" by auto
  moreover obtain d ds where "l @ crlf @ r = d # ds" by (cases l) (simp_all add: crlf_def)
  ultimately show ?case by simp
qed

lemma http_head_line:
  "CHR 0x0D \<notin> set l \<Longrightarrow> l \<noteq> [] \<Longrightarrow>
   http_head (l @ crlf @ r) = map_option (\<lambda>(ls, b). (l # ls, b)) (http_head r)"
  by (subst http_head.simps) (simp add: take_line_crlf)

lemma http_head_end: "http_head (crlf @ b) = Some ([], b)"
  by (subst http_head.simps) (simp add: take_line_crlf [of "[]", simplified])

lemma http_head_lines:
  "list_all (\<lambda>l. l \<noteq> [] \<and> CHR 0x0D \<notin> set l) ls \<Longrightarrow>
   http_head (concat (map (\<lambda>l. l @ crlf) ls) @ crlf @ b) = Some (ls, b)"
  by (induction ls) (simp_all add: http_head_line http_head_end)

text \<open>The metrics response is a well-formed HTTP message whatever the metrics are: a client that reads
  its header lines, takes the announced length and compares it with the rest gets exactly the Prometheus
  text of these metrics.\<close>

lemma http_body_response: "http_body (metrics_http_response m) = Some (get_prometheus_text m)"
proof -
  let ?b = "get_prometheus_text m"
  let ?n = "to_string (int (length ?b))"
  let ?hs = "[''HTTP/1.1 200 OK'', ''Content-Type: text/plain; version=0.0.4; charset=utf-8'',
    ''Content-Length: '' @ ?n, ''Connection: close'']"
  have "metrics_http_response m = concat (map (\<lambda>l. l @ crlf) ?hs) @ crlf @ ?b"
    by (simp add: metrics_http_response_def Let_def)
  then have "http_head (metrics_http_response m) = Some (?hs, ?b)"
    using http_head_lines [of ?hs ?b] not_in_to_string [of "CHR 0x0D" "int (length ?b)"] by simp
  then show ?thesis by (simp add: http_body_def List.map_filter_def)
qed

section \<open>Every connection is answered and closed\<close>

lemma metrics_loop_answers:
  assumes "metrics_loop server_fd obs = (cs, x)"
  shows "\<exists>n. accepted cs = take n (map sv_accept (filter (\<lambda>ob. 0 \<le> sv_accept ob) obs)) \<and>
             responses cs = take n (map (\<lambda>ob. metrics_http_response (sv_metrics ob)) (filter (\<lambda>ob. 0 \<le> sv_accept ob) obs))"
  using assms
proof (induction obs arbitrary: cs x)
  case Nil
  then show ?case by simp
next
  case (Cons ob obs)
  obtain cs1 x1 where rest: "metrics_loop server_fd obs = (cs1, x1)" by force
  from Cons.IH [OF this] obtain n where n:
    "accepted cs1 = take n (map sv_accept (filter (\<lambda>ob. 0 \<le> sv_accept ob) obs))"
    "responses cs1 = take n (map (\<lambda>ob. metrics_http_response (sv_metrics ob)) (filter (\<lambda>ob. 0 \<le> sv_accept ob) obs))"
    by blast
  consider (stop) "\<not> sv_g_running ob" | (fail) "sv_g_running ob" "sv_accept ob < 0"
    | (killed) "sv_g_running ob" "0 \<le> sv_accept ob" "sv_write ob = BrokenPipe"
    | (served) "sv_g_running ob" "0 \<le> sv_accept ob" "sv_write ob \<noteq> BrokenPipe" by linarith
  then show ?case
  proof cases
    case stop
    with Cons.prems show ?thesis by (intro exI [of _ 0]) auto
  next
    case fail
    with Cons.prems rest n show ?thesis by (intro exI [of _ n]) (auto simp: Let_def)
  next
    case killed
    with Cons.prems show ?thesis by (intro exI [of _ 1]) (auto simp: Let_def)
  next
    case served
    with Cons.prems rest n show ?thesis by (intro exI [of _ "Suc n"]) (auto simp: Let_def)
  qed
qed


definition demo_serve :: "bool \<Rightarrow> int \<Rightarrow> serve_obs" where
  "demo_serve running fd = \<lparr>sv_g_running = running, sv_accept = fd, sv_metrics = Metrics_new, sv_write = Wrote 1\<rparr>"


end
