(* ===== verification/Lidar_Process.thy ===== *)
theory Lidar_Process
  imports Metrics_Endpoint
begin

text \<open>
  The process of \<^verbatim>\<open>examples/lidar_emulator.cpp\<close>: the main thread, the heartbeat thread, the metrics
  thread, the handlers of the node's gRPC server and the signal handler, interleaved. The registry
  calls \<open>reg\<close> and \<open>hb\<close> and the world they act on are arguments. gRPC behaves as documented:
  \<^verbatim>\<open>BuildAndStart\<close> returns null when the port cannot be bound, and \<^verbatim>\<open>Shutdown\<close> stops accepting calls and
  waits until the handlers of the accepted ones have returned.
\<close>

section \<open>State\<close>

text \<open>Where the main thread is: each constructor is the statement it executes next, then the three
  ways the process ends.\<close>

datatype main_pc =
    MP_Build | MP_SpawnMetrics | MP_Register | MP_SpawnHeartbeat | MP_Wait
  | MP_Shutdown | MP_Drain | MP_StopHeartbeat | MP_JoinHeartbeat | MP_JoinMetrics
  | MP_ServerWait | MP_LoggerShutdown | MP_Returned | MP_Crashed | MP_Killed

datatype heartbeat_pc = HT_None | HT_Test | HT_Body | HT_Sleep | HT_Exited

datatype metrics_pc = MT_None | MT_Setup | MT_Test | MT_Accept | MT_Read | MT_Write | MT_Exited

text \<open>Running handlers: \<^verbatim>\<open>Subscribe\<close>, \<^verbatim>\<open>ControlStream\<close>, or one of the unary calls.\<close>

datatype handler = H_Subscribe | H_Control | H_Unary

record 'w lidar_sys =
  lp_g_running :: bool
  lp_heartbeat_running :: bool
  lp_main :: main_pc
  lp_server :: server_state
  lp_handlers :: "handler list"
  lp_heartbeat :: heartbeat_pc
  lp_metrics :: metrics_pc
  lp_vars :: heartbeat_vars
  lp_world :: 'w

definition lidar_init :: "'w \<Rightarrow> 'w lidar_sys" where
  "lidar_init w =
     \<lparr>lp_g_running = True, lp_heartbeat_running = True, lp_main = MP_Build, lp_server = Sv_Unbuilt,
      lp_handlers = [], lp_heartbeat = HT_None, lp_metrics = MT_None,
      lp_vars = \<lparr>hv_session_id = ''pending'', hv_consecutive_failures = 0, hv_needs_reregister = False\<rparr>,
      lp_world = w\<rparr>"

definition alive :: "'w lidar_sys \<Rightarrow> bool" where
  "alive s \<longleftrightarrow> lp_main s \<notin> {MP_Returned, MP_Crashed, MP_Killed}"

section \<open>Steps\<close>

text \<open>
  Events of the program itself, and of the outside: the signal, a client that calls or ends its
  stream (or no longer reads the frames), a connection to the metrics port or an error of \<^verbatim>\<open>accept\<close>, a
  request on it, and a reset of it.
\<close>

datatype lidar_event =
    EvBuild bool
  | EvMain
  | EvRpcStep handler
  | EvBeatTest
  | EvBeat u64
  | EvBeatWake
  | EvMetricsSetup bool
  | EvMetricsTest
  | EvAnswer
  | EvSignal
  | EvRpcBegin handler
  | EvClientEnds handler
  | EvAccept bool
  | EvRequest
  | EvBrokenPipe

fun own_event :: "lidar_event \<Rightarrow> bool" where
  "own_event EvSignal = False"
| "own_event (EvRpcBegin h) = False"
| "own_event (EvClientEnds h) = False"
| "own_event (EvAccept ok) = False"
| "own_event EvRequest = False"
| "own_event EvBrokenPipe = False"
| "own_event _ = True"

text \<open>One statement of the main thread; None where it has to wait.\<close>

definition main_step :: "'w register_call \<Rightarrow> 'w lidar_sys \<Rightarrow> 'w lidar_sys option" where
  "main_step reg s =
     (case lp_main s of
        MP_SpawnMetrics \<Rightarrow> Some (s\<lparr>lp_metrics := MT_Setup, lp_main := MP_Register\<rparr>)
      | MP_Register \<Rightarrow>
          (let v = lp_vars s;
               (ok, session_id, w) = try_register_node reg ''lidar_01'' 50052 (hv_session_id v) (lp_world s)
           in Some (s\<lparr>lp_vars := v\<lparr>hv_session_id := session_id\<rparr>, lp_world := w, lp_main := MP_SpawnHeartbeat\<rparr>))
      | MP_SpawnHeartbeat \<Rightarrow> Some (s\<lparr>lp_heartbeat_running := True, lp_heartbeat := HT_Test, lp_main := MP_Wait\<rparr>)
      | MP_Wait \<Rightarrow> Some (if lp_g_running s then s else s\<lparr>lp_main := MP_Shutdown\<rparr>)
      | MP_Shutdown \<Rightarrow>
          Some (if lp_server s = Sv_Null then s\<lparr>lp_main := MP_Crashed\<rparr>
                else s\<lparr>lp_server := Sv_Shutdown, lp_main := MP_Drain\<rparr>)
      | MP_Drain \<Rightarrow> if lp_handlers s = [] then Some (s\<lparr>lp_main := MP_StopHeartbeat\<rparr>) else None
      | MP_StopHeartbeat \<Rightarrow> Some (s\<lparr>lp_heartbeat_running := False, lp_main := MP_JoinHeartbeat\<rparr>)
      | MP_JoinHeartbeat \<Rightarrow> if lp_heartbeat s = HT_Exited then Some (s\<lparr>lp_main := MP_JoinMetrics\<rparr>) else None
      | MP_JoinMetrics \<Rightarrow> if lp_metrics s = MT_Exited then Some (s\<lparr>lp_main := MP_ServerWait\<rparr>) else None
      | MP_ServerWait \<Rightarrow> if lp_handlers s = [] then Some (s\<lparr>lp_main := MP_LoggerShutdown\<rparr>) else None
      | MP_LoggerShutdown \<Rightarrow> Some (s\<lparr>lp_main := MP_Returned\<rparr>)
      | _ \<Rightarrow> None)"

inductive lidar_step :: "'w register_call \<Rightarrow> 'w heartbeat_call \<Rightarrow> 'w lidar_sys \<Rightarrow> lidar_event \<Rightarrow> 'w lidar_sys \<Rightarrow> bool"
  for reg :: "'w register_call" and hb :: "'w heartbeat_call" where
  Build:
    "lp_main s = MP_Build \<Longrightarrow>
     lidar_step reg hb s (EvBuild ok)
       (s\<lparr>lp_server := (if ok then Sv_Serving else Sv_Null), lp_main := MP_SpawnMetrics\<rparr>)"
| Main: "main_step reg s = Some s' \<Longrightarrow> lidar_step reg hb s EvMain s'"
| Signal: "alive s \<Longrightarrow> lidar_step reg hb s EvSignal (s\<lparr>lp_g_running := False\<rparr>)"
| RpcBegin:
    "alive s \<Longrightarrow> lp_server s = Sv_Serving \<Longrightarrow>
     lidar_step reg hb s (EvRpcBegin h) (s\<lparr>lp_handlers := h # lp_handlers s\<rparr>)"
| UnaryReturns:
    "alive s \<Longrightarrow> H_Unary \<in> set (lp_handlers s) \<Longrightarrow>
     lidar_step reg hb s (EvRpcStep H_Unary) (s\<lparr>lp_handlers := remove1 H_Unary (lp_handlers s)\<rparr>)"
| SubscribeTest:
    "alive s \<Longrightarrow> H_Subscribe \<in> set (lp_handlers s) \<Longrightarrow>
     lidar_step reg hb s (EvRpcStep H_Subscribe)
       (if lp_g_running s then s else s\<lparr>lp_handlers := remove1 H_Subscribe (lp_handlers s)\<rparr>)"
| StreamEnds:
    "alive s \<Longrightarrow> h \<in> set (lp_handlers s) \<Longrightarrow> h \<noteq> H_Unary \<Longrightarrow>
     lidar_step reg hb s (EvClientEnds h) (s\<lparr>lp_handlers := remove1 h (lp_handlers s)\<rparr>)"
| BeatTest:
    "alive s \<Longrightarrow> lp_heartbeat s = HT_Test \<Longrightarrow>
     lidar_step reg hb s EvBeatTest
       (s\<lparr>lp_heartbeat := (if lp_heartbeat_running s \<and> lp_g_running s then HT_Body else HT_Exited)\<rparr>)"
| Beat:
    "alive s \<Longrightarrow> lp_heartbeat s = HT_Body \<Longrightarrow>
     lidar_iteration reg hb ''lidar_01'' 50052 ts (lp_vars s) (lp_world s) = Some (v, w, slept) \<Longrightarrow>
     lidar_step reg hb s (EvBeat ts) (s\<lparr>lp_heartbeat := HT_Sleep, lp_vars := v, lp_world := w\<rparr>)"
| BeatUndefined:
    "alive s \<Longrightarrow> lp_heartbeat s = HT_Body \<Longrightarrow>
     lidar_iteration reg hb ''lidar_01'' 50052 ts (lp_vars s) (lp_world s) = None \<Longrightarrow>
     lidar_step reg hb s (EvBeat ts) (s\<lparr>lp_main := MP_Crashed\<rparr>)"
| BeatWake:
    "alive s \<Longrightarrow> lp_heartbeat s = HT_Sleep \<Longrightarrow> lidar_step reg hb s EvBeatWake (s\<lparr>lp_heartbeat := HT_Test\<rparr>)"
| MetricsSetup:
    "alive s \<Longrightarrow> lp_metrics s = MT_Setup \<Longrightarrow>
     lidar_step reg hb s (EvMetricsSetup ok) (s\<lparr>lp_metrics := (if ok then MT_Test else MT_Exited)\<rparr>)"
| MetricsTest:
    "alive s \<Longrightarrow> lp_metrics s = MT_Test \<Longrightarrow>
     lidar_step reg hb s EvMetricsTest (s\<lparr>lp_metrics := (if lp_g_running s then MT_Accept else MT_Exited)\<rparr>)"
| MetricsAccept:
    "alive s \<Longrightarrow> lp_metrics s = MT_Accept \<Longrightarrow>
     lidar_step reg hb s (EvAccept ok) (s\<lparr>lp_metrics := (if ok then MT_Read else MT_Test)\<rparr>)"
| MetricsRead:
    "alive s \<Longrightarrow> lp_metrics s = MT_Read \<Longrightarrow> lidar_step reg hb s EvRequest (s\<lparr>lp_metrics := MT_Write\<rparr>)"
| MetricsAnswer:
    "alive s \<Longrightarrow> lp_metrics s = MT_Write \<Longrightarrow> lidar_step reg hb s EvAnswer (s\<lparr>lp_metrics := MT_Test\<rparr>)"
| MetricsBrokenPipe:
    "alive s \<Longrightarrow> lp_metrics s = MT_Write \<Longrightarrow> lidar_step reg hb s EvBrokenPipe (s\<lparr>lp_main := MP_Killed\<rparr>)"

inductive_simps lidar_step_simps [step_simps]:
  "lidar_step reg hb s (EvBuild ok) s'"
  "lidar_step reg hb s EvMain s'"
  "lidar_step reg hb s EvSignal s'"
  "lidar_step reg hb s (EvRpcBegin h) s'"
  "lidar_step reg hb s EvBeatTest s'"
  "lidar_step reg hb s EvBeatWake s'"
  "lidar_step reg hb s (EvMetricsSetup ok) s'"
  "lidar_step reg hb s EvMetricsTest s'"
  "lidar_step reg hb s (EvAccept ok) s'"
  "lidar_step reg hb s EvRequest s'"
  "lidar_step reg hb s EvAnswer s'"
  "lidar_step reg hb s (EvBeat ts) s'"

section \<open>The invariant\<close>

text \<open>How far the main thread is; a crash is at the shutdown of the server.\<close>

fun phase :: "main_pc \<Rightarrow> nat" where
  "phase MP_Build = 0"
| "phase MP_SpawnMetrics = 1"
| "phase MP_Register = 2"
| "phase MP_SpawnHeartbeat = 3"
| "phase MP_Wait = 4"
| "phase MP_Shutdown = 5"
| "phase MP_Crashed = 5"
| "phase MP_Killed = 5"
| "phase MP_Drain = 6"
| "phase MP_StopHeartbeat = 7"
| "phase MP_JoinHeartbeat = 8"
| "phase MP_JoinMetrics = 9"
| "phase MP_ServerWait = 10"
| "phase MP_LoggerShutdown = 11"
| "phase MP_Returned = 12"

text \<open>What each phase has behind it.\<close>

definition phase_ok :: "'w lidar_sys \<Rightarrow> bool" where
  "phase_ok s \<longleftrightarrow>
     (let p = phase (lp_main s)
      in (lp_main s = MP_Crashed \<longrightarrow> lp_server s = Sv_Null) \<and>
         (p = 0 \<longleftrightarrow> lp_server s = Sv_Unbuilt) \<and>
         (p \<le> 1 \<longleftrightarrow> lp_metrics s = MT_None) \<and>
         (p \<le> 3 \<longleftrightarrow> lp_heartbeat s = HT_None) \<and>
         (5 \<le> p \<longrightarrow> \<not> lp_g_running s) \<and>
         (6 \<le> p \<longrightarrow> lp_server s = Sv_Shutdown) \<and>
         (7 \<le> p \<longrightarrow> lp_handlers s = []) \<and>
         (9 \<le> p \<longrightarrow> lp_heartbeat s = HT_Exited) \<and>
         (10 \<le> p \<longrightarrow> lp_metrics s = MT_Exited))"

definition lidar_inv :: "'w lidar_sys \<Rightarrow> bool" where
  "lidar_inv s \<longleftrightarrow> heartbeat_inv (lp_vars s) \<and> (lp_main s = MP_Killed \<or> phase_ok s)"

lemma lidar_inv_init: "lidar_inv (lidar_init w)"
  by (simp add: lidar_inv_def lidar_init_def phase_ok_def heartbeat_inv_def)

lemma main_step_inv:
  assumes "lidar_inv s" and "main_step reg s = Some s'"
  shows "lidar_inv s'"
proof -
  have "lp_main s \<noteq> MP_Killed" using assms(2) by (auto simp: main_step_def)
  then have ok: "phase_ok s" and hv: "heartbeat_inv (lp_vars s)" using assms(1) by (simp_all add: lidar_inv_def)
  have "heartbeat_inv (lp_vars s')"
    using assms(2) hv
    by (auto simp: main_step_def heartbeat_inv_def Let_def split: main_pc.splits if_splits prod.splits)
  moreover have "phase_ok s'"
    using ok assms(2)
    by (cases "lp_main s") (auto simp: main_step_def phase_ok_def Let_def split: if_splits prod.splits)
  ultimately show ?thesis by (simp add: lidar_inv_def)
qed

lemma lidar_inv_step:
  assumes "lidar_inv s" and "lidar_step reg hb s e s'"
  shows "lidar_inv s'"
  using assms(2)
proof (cases rule: lidar_step.cases)
  case Main
  with assms(1) show ?thesis by (blast intro: main_step_inv)
next
  case (Beat ts v w slept)
  then have "heartbeat_inv v"
    using assms(1) lidar_iteration_inv [of "lp_vars s" reg hb "''lidar_01''" 50052 ts "lp_world s"]
    by (auto simp: lidar_inv_def)
  with assms(1) Beat show ?thesis by (auto simp: lidar_inv_def phase_ok_def Let_def)
next
  case (BeatUndefined ts)
  then show ?thesis
    using assms(1) lidar_iteration_inv [of "lp_vars s" reg hb "''lidar_01''" 50052 ts "lp_world s"]
    by (auto simp: lidar_inv_def)
qed (use assms(1) in \<open>auto simp: lidar_inv_def phase_ok_def Let_def alive_def\<close>)

interpretation lidar: transition_invariant "\<lambda>s. \<exists>w. s = lidar_init w" "lidar_step reg hb" lidar_inv
  for reg :: "'w register_call" and hb :: "'w heartbeat_call"
  by unfold_locales (auto intro: lidar_inv_init lidar_inv_step)

abbreviation lidar_reachable :: "'w register_call \<Rightarrow> 'w heartbeat_call \<Rightarrow> 'w lidar_sys \<Rightarrow> bool" where
  "lidar_reachable reg hb \<equiv> reach (\<lambda>s. \<exists>w. s = lidar_init w) (lidar_step reg hb)"

text \<open>C10: The shutdown order of the LIDAR process, for every interleaving of its threads, its clients and
  the signal. The handlers of the node's server have returned before the heartbeat thread is told to
  stop; when the main thread returns, the server is shut down and no handler, heartbeat or metrics thread
  is left that could use what it destroys. The process dereferences null exactly when it wants to shut
  down a server that could not bind its port, and with such a server it never returns.\<close>

theorem lidar_shutdown_order:
  assumes "lidar_reachable reg hb s"
  shows "(lp_main s = MP_StopHeartbeat \<longrightarrow> lp_server s = Sv_Shutdown \<and> lp_handlers s = []) \<and>
         (lp_main s = MP_Returned \<longrightarrow>
            \<not> lp_g_running s \<and> lp_server s = Sv_Shutdown \<and> lp_handlers s = [] \<and>
            lp_heartbeat s = HT_Exited \<and> lp_metrics s = MT_Exited) \<and>
         (lp_main s = MP_Crashed \<longrightarrow> lp_server s = Sv_Null) \<and>
         (lp_server s = Sv_Null \<longrightarrow> lp_main s \<noteq> MP_Returned) \<and>
         (lp_main s = MP_Shutdown \<longrightarrow> lp_server s = Sv_Null \<longrightarrow>
            (\<forall>s'. lidar_step reg hb s EvMain s' \<longrightarrow> lp_main s' = MP_Crashed))"
proof -
  have inv: "lidar_inv s" using assms by (rule lidar.reach_inv)
  then have ok: "phase_ok s" if "lp_main s \<noteq> MP_Killed" using that by (simp add: lidar_inv_def)
  have "lp_main s' = MP_Crashed" if "lp_main s = MP_Shutdown" "lp_server s = Sv_Null" "lidar_step reg hb s EvMain s'" for s'
    using that by (auto simp: step_simps main_step_def)
  with ok show ?thesis by (auto simp: phase_ok_def Let_def)
qed

section \<open>Termination of the shutdown\<close>

text \<open>How many steps of its own each thread still takes when \<^verbatim>\<open>g_running\<close> is false; a spawned thread
  is paid for by the main thread.\<close>

fun heartbeat_rank :: "heartbeat_pc \<Rightarrow> nat" where
  "heartbeat_rank HT_None = 0"
| "heartbeat_rank HT_Exited = 0"
| "heartbeat_rank HT_Test = 1"
| "heartbeat_rank HT_Sleep = 2"
| "heartbeat_rank HT_Body = 3"

fun metrics_rank :: "metrics_pc \<Rightarrow> nat" where
  "metrics_rank MT_None = 0"
| "metrics_rank MT_Exited = 0"
| "metrics_rank MT_Test = 1"
| "metrics_rank MT_Setup = 2"
| "metrics_rank MT_Write = 2"
| "metrics_rank MT_Read = 2"
| "metrics_rank MT_Accept = 2"

definition lidar_rank :: "'w lidar_sys \<Rightarrow> nat" where
  "lidar_rank s =
     (if alive s then 3 * (12 - phase (lp_main s)) else 0) + heartbeat_rank (lp_heartbeat s) +
     metrics_rank (lp_metrics s) + length (lp_handlers s)"

fun begins :: "lidar_event \<Rightarrow> nat" where
  "begins (EvRpcBegin h) = 1"
| "begins _ = 0"

lemma main_step_rank:
  assumes "main_step reg s = Some s'" and "\<not> lp_g_running s"
  shows "\<not> lp_g_running s' \<and> lidar_rank s' < lidar_rank s"
  using assms
  by (cases "lp_main s")
    (auto simp: main_step_def lidar_rank_def alive_def Let_def split: if_splits prod.splits)

lemma lidar_step_rank:
  assumes "lidar_step reg hb s e s'" and "lidar_inv s" and "\<not> lp_g_running s"
  shows "\<not> lp_g_running s' \<and>
         lidar_rank s' + (if own_event e then 1 else 0) \<le> lidar_rank s + begins e"
  using assms(1)
proof (cases rule: lidar_step.cases)
  case Main
  with main_step_rank [OF _ assms(3)] show ?thesis by fastforce
next
  case (BeatUndefined ts)
  then show ?thesis
    using assms(2) lidar_iteration_inv [of "lp_vars s" reg hb "''lidar_01''" 50052 ts "lp_world s"]
    by (auto simp: lidar_inv_def)
next
  case UnaryReturns
  then have "0 < length (lp_handlers s)" by auto
  with UnaryReturns assms(3) show ?thesis by (auto simp: lidar_rank_def alive_def length_remove1)
next
  case SubscribeTest
  then have "0 < length (lp_handlers s)" by auto
  with SubscribeTest assms(3) show ?thesis by (auto simp: lidar_rank_def alive_def length_remove1)
qed (use assms(3) in \<open>auto simp: lidar_rank_def alive_def length_remove1\<close>)

lemma lidar_run_rank:
  assumes "steps (lidar_step reg hb) s es s'" and "lidar_inv s" and "\<not> lp_g_running s"
  shows "\<not> lp_g_running s' \<and>
         lidar_rank s' + length (filter own_event es) \<le> lidar_rank s + sum_list (map begins es)"
  using assms
proof (induction rule: steps.induct)
  case (steps_Nil s)
  then show ?case by simp
next
  case (steps_Cons s e s' es s'')
  have "lidar_inv s'" using steps_Cons.prems(1) steps_Cons.hyps(1) by (rule lidar_inv_step)
  with lidar_step_rank [OF steps_Cons.hyps(1) steps_Cons.prems] steps_Cons.IH show ?case by (auto split: if_splits)
qed

text \<open>Every thread but the ones that wait for the outside can move.\<close>

lemma heartbeat_progress:
  assumes "alive s" and "lp_heartbeat s \<notin> {HT_None, HT_Exited}"
  shows "\<exists>e s'. own_event e \<and> lidar_step reg hb s e s'"
proof (cases "lp_heartbeat s")
  case HT_Test
  with assms(1) show ?thesis using BeatTest own_event.simps by blast
next
  case HT_Sleep
  with assms(1) show ?thesis using BeatWake own_event.simps by blast
next
  case HT_Body
  show ?thesis
  proof (cases "lidar_iteration reg hb ''lidar_01'' 50052 0 (lp_vars s) (lp_world s)")
    case None
    with assms(1) HT_Body show ?thesis using BeatUndefined own_event.simps by blast
  next
    case (Some r)
    obtain v w d where "r = (v, w, d)" by (metis prod_cases3)
    with Beat [OF assms(1) HT_Body] Some have "lidar_step reg hb s (EvBeat 0)
        (s\<lparr>lp_heartbeat := HT_Sleep, lp_vars := v, lp_world := w\<rparr>)" by simp
    moreover have "own_event (EvBeat 0)" by simp
    ultimately show ?thesis by blast
  qed
qed (use assms in auto)

lemma metrics_progress:
  assumes "alive s" and "lp_metrics s \<notin> {MT_None, MT_Exited, MT_Accept, MT_Read}"
  shows "\<exists>e s'. own_event e \<and> lidar_step reg hb s e s'"
proof (cases "lp_metrics s")
  case MT_Setup
  with assms(1) show ?thesis using MetricsSetup own_event.simps by blast
next
  case MT_Test
  with assms(1) show ?thesis using MetricsTest own_event.simps by blast
next
  case MT_Write
  with assms(1) show ?thesis using MetricsAnswer own_event.simps by blast
qed (use assms in auto)

lemma handler_progress:
  assumes "alive s" and "lp_handlers s \<noteq> []" and "H_Control \<notin> set (lp_handlers s)"
  shows "\<exists>e s'. own_event e \<and> lidar_step reg hb s e s'"
proof -
  obtain h where h: "h \<in> set (lp_handlers s)" "h \<noteq> H_Control" using assms(2,3) by (cases "lp_handlers s") auto
  then consider "h = H_Unary" | "h = H_Subscribe" using handler.exhaust by blast
  then show ?thesis
  proof cases
    case 1
    with assms(1) h show ?thesis using UnaryReturns own_event.simps by blast
  next
    case 2
    with assms(1) h show ?thesis using SubscribeTest own_event.simps by blast
  qed
qed

lemma main_progress: "main_step reg s \<noteq> None \<Longrightarrow> \<exists>e s'. own_event e \<and> lidar_step reg hb s e s'"
  using Main own_event.simps by blast

lemma stuck_waits:
  assumes "lidar_inv s" and "\<not> lp_g_running s" and "alive s"
    and stuck: "\<nexists>e s'. own_event e \<and> lidar_step reg hb s e s'"
  shows "lp_main s = MP_Drain \<and> H_Control \<in> set (lp_handlers s) \<or>
         lp_main s = MP_JoinMetrics \<and> lp_metrics s \<in> {MT_Accept, MT_Read}"
proof -
  have ok: "phase_ok s" using assms(1,3) by (auto simp: lidar_inv_def alive_def)
  have none: "main_step reg s = None" using main_progress stuck by blast
  have "lp_main s \<noteq> MP_Build" using Build stuck own_event.simps by blast
  with none assms(2,3) consider (drain) "lp_main s = MP_Drain" "lp_handlers s \<noteq> []"
    | (beat) "lp_main s = MP_JoinHeartbeat" "lp_heartbeat s \<noteq> HT_Exited"
    | (metr) "lp_main s = MP_JoinMetrics" "lp_metrics s \<noteq> MT_Exited"
    | (wait) "lp_main s = MP_ServerWait" "lp_handlers s \<noteq> []"
    by (cases "lp_main s") (auto simp: main_step_def alive_def Let_def split: if_splits prod.splits)
  then show ?thesis
  proof cases
    case drain
    with handler_progress [OF assms(3)] stuck show ?thesis by blast
  next
    case beat
    then have "lp_heartbeat s \<notin> {HT_None, HT_Exited}" using ok by (auto simp: phase_ok_def)
    with heartbeat_progress [OF assms(3)] stuck show ?thesis by blast
  next
    case metr
    then have "lp_metrics s \<notin> {MT_None, MT_Exited}" using ok by (auto simp: phase_ok_def)
    with metrics_progress [OF assms(3)] stuck metr(1) show ?thesis by blast
  next
    case wait
    then show ?thesis using ok by (simp add: phase_ok_def)
  qed
qed

lemma heartbeat_rank_le: "heartbeat_rank p \<le> 3"
  by (cases p) simp_all

lemma metrics_rank_le: "metrics_rank p \<le> 2"
  by (cases p) simp_all

lemma lidar_rank_le: "lidar_rank s \<le> 41 + length (lp_handlers s)"
  using heartbeat_rank_le [of "lp_heartbeat s"] metrics_rank_le [of "lp_metrics s"]
  unfolding lidar_rank_def by (split if_split) arith


text \<open>C37: The LIDAR process does not exit on a signal alone. If the metrics thread is in accept, then in
  every continuation in which accept does not return the main thread does not return either, although
  the code assumes that clearing the running flag ends that thread: the exit waits for the next scrape.\<close>

theorem lidar_exit_needs_connection:
  assumes "lidar_reachable reg hb s" and "lp_metrics s = MT_Accept"
    and "steps (lidar_step reg hb) s es s'" and "\<forall>ok. EvAccept ok \<notin> set es"
  shows "lp_metrics s' = MT_Accept \<and> lp_main s' \<noteq> MP_Returned"
proof -
  have inv: "lidar_inv s" using assms(1) by (rule lidar.reach_inv)
  let ?P = "\<lambda>u. lp_metrics u = MT_Accept"
  have keep: "?P u'" if "lidar_inv u" "lidar_step reg hb u e u'" "e \<in> set es" "?P u" for u e u'
  proof -
    have "phase_ok u \<or> lp_main u = MP_Killed" using that(1) by (auto simp: lidar_inv_def)
    with that(2) show ?thesis
      using that(3,4) assms(4)
      by (cases rule: lidar_step.cases) (auto simp: main_step_def phase_ok_def Let_def split: main_pc.splits if_splits prod.splits)
  qed
  have acc: "lp_metrics s' = MT_Accept"
    using assms(3) inv assms(2) by (rule lidar.steps_stable) (rule keep)
  moreover have "lidar_inv s'" using assms(3) inv by (rule lidar.steps_inv)
  ultimately show ?thesis by (auto simp: lidar_inv_def phase_ok_def)
qed

section \<open>The process runs the client\<close>

lemma run_heartbeat_loop_snoc:
  assumes "run_heartbeat_loop reg hb nid prt obs v w = Some (v1, w1, ss)"
    and "list_all (\<lambda>(heartbeat_running, g_running, _). heartbeat_running \<and> g_running) obs"
    and "lidar_iteration reg hb nid prt ts v1 w1 = Some (v2, w2, d)"
  shows "run_heartbeat_loop reg hb nid prt (obs @ [(True, True, ts)]) v w = Some (v2, w2, ss @ [d])"
  using assms
proof (induction obs arbitrary: v w ss)
  case Nil
  then show ?case by simp
next
  case (Cons ob obs)
  obtain ts1 where ob: "ob = (True, True, ts1)" using Cons.prems(2) by (cases ob) auto
  obtain v' w' d' ss' where it: "lidar_iteration reg hb nid prt ts1 v w = Some (v', w', d')"
      "run_heartbeat_loop reg hb nid prt obs v' w' = Some (v1, w1, ss')" "ss = d' # ss'"
    using Cons.prems(1) by (auto simp: ob bind_eq_Some_conv)
  with Cons.IH [OF it(2) _ Cons.prems(3)] Cons.prems(2) show ?case by (simp add: ob)
qed

definition client_run :: "'w register_call \<Rightarrow> 'w heartbeat_call \<Rightarrow> 'w \<Rightarrow> 'w lidar_sys \<Rightarrow> bool" where
  "client_run reg hb w0 s \<longleftrightarrow>
     (\<exists>obs sleeps. list_all (\<lambda>(heartbeat_running, g_running, _). heartbeat_running \<and> g_running) obs \<and>
        lidar_client reg hb obs w0 = Some (lp_vars s, lp_world s, sleeps))"

definition client_inv :: "'w register_call \<Rightarrow> 'w heartbeat_call \<Rightarrow> 'w \<Rightarrow> 'w lidar_sys \<Rightarrow> bool" where
  "client_inv reg hb w0 s \<longleftrightarrow>
     (lp_main s \<noteq> MP_Killed \<longrightarrow>
        (phase (lp_main s) \<le> 3 \<longrightarrow> lp_heartbeat s = HT_None) \<and>
        (if phase (lp_main s) \<le> 2 then lp_vars s = lp_vars (lidar_init w0) \<and> lp_world s = w0
         else client_run reg hb w0 s))"

lemma client_run_cong:
  "lp_vars s' = lp_vars s \<Longrightarrow> lp_world s' = lp_world s \<Longrightarrow> client_run reg hb w0 s' = client_run reg hb w0 s"
  by (simp add: client_run_def)

lemma client_run_beat:
  assumes "client_run reg hb w0 s"
    and "lidar_iteration reg hb ''lidar_01'' 50052 ts (lp_vars s) (lp_world s) = Some (v, w, d)"
  shows "client_run reg hb w0 (s\<lparr>lp_heartbeat := p, lp_vars := v, lp_world := w\<rparr>)"
proof -
  obtain obs sleeps where obs: "list_all (\<lambda>(heartbeat_running, g_running, _). heartbeat_running \<and> g_running) obs"
      "lidar_client reg hb obs w0 = Some (lp_vars s, lp_world s, sleeps)"
    using assms(1) by (auto simp: client_run_def)
  obtain ok sid w1 where "try_register_node reg ''lidar_01'' 50052 ''pending'' w0 = (ok, sid, w1)" by (metis prod_cases3)
  then have "lidar_client reg hb (obs @ [(True, True, ts)]) w0 = Some (v, w, sleeps @ [d])"
    using run_heartbeat_loop_snoc [OF _ obs(1) assms(2)] obs(2) by (simp add: lidar_client_def run_heartbeat_def)
  with obs(1) show ?thesis
    by (auto simp: client_run_def intro!: exI [of _ "obs @ [(True, True, ts)]"])
qed

lemma client_main_step:
  assumes "client_inv reg hb w0 s" and "main_step reg s = Some s'"
  shows "client_inv reg hb w0 s'"
proof (cases "lp_main s = MP_Register")
  case True
  obtain ok sid w1 where reg: "try_register_node reg ''lidar_01'' 50052 ''pending'' w0 = (ok, sid, w1)"
    by (metis prod_cases3)
  have vars: "lp_vars s = lp_vars (lidar_init w0)" "lp_world s = w0" "lp_heartbeat s = HT_None"
    using assms(1) True by (simp_all add: client_inv_def)
  have "lidar_client reg hb [] w0 = Some ((lp_vars s)\<lparr>hv_session_id := sid\<rparr>, w1, [])"
    using reg vars(1) by (simp add: lidar_client_def run_heartbeat_def lidar_init_def)
  moreover have "s' = s\<lparr>lp_vars := (lp_vars s)\<lparr>hv_session_id := sid\<rparr>, lp_world := w1, lp_main := MP_SpawnHeartbeat\<rparr>"
    using assms(2) True reg vars by (simp add: main_step_def lidar_init_def)
  ultimately show ?thesis
    using vars(3) by (auto simp: client_inv_def client_run_def intro!: exI [of _ "[]"])
next
  case False
  with assms show ?thesis
    by (cases "lp_main s")
      (auto simp: main_step_def client_inv_def client_run_def split: if_splits)
qed

lemma client_step:
  assumes "client_inv reg hb w0 s" and "lidar_step reg hb s e s'"
  shows "client_inv reg hb w0 s'"
  using assms(2)
proof (cases rule: lidar_step.cases)
  case Main
  with assms(1) show ?thesis by (blast intro: client_main_step)
next
  case (Beat ts v w d)
  then have ph: "lp_main s \<noteq> MP_Killed" "\<not> phase (lp_main s) \<le> 3" using assms(1) by (auto simp: client_inv_def alive_def)
  then have "client_run reg hb w0 s" using assms(1) by (auto simp: client_inv_def)
  from client_run_beat [OF this Beat(5)] Beat ph show ?thesis by (simp add: client_inv_def)
qed (use assms(1) in \<open>auto simp: client_inv_def client_run_def alive_def split: if_splits\<close>)

lemma client_inv_init: "client_inv reg hb w0 (lidar_init w0)"
  by (simp add: client_inv_def lidar_init_def)

interpretation lidar_client_of: transition_invariant "\<lambda>s. s = lidar_init w0" "lidar_step reg hb" "client_inv reg hb w0"
  for reg :: "'w register_call" and hb :: "'w heartbeat_call" and w0 :: 'w
  by unfold_locales (auto intro: client_step client_inv_init)

lemma process_client:
  assumes "reach (\<lambda>s. s = lidar_init w0) (lidar_step reg hb) s"
    and "lp_main s \<notin> {MP_Build, MP_SpawnMetrics, MP_Register, MP_Killed}"
  shows "\<exists>obs sleeps. list_all (\<lambda>(heartbeat_running, g_running, _). heartbeat_running \<and> g_running) obs \<and>
           lidar_client reg hb obs w0 = Some (lp_vars s, lp_world s, sleeps)"
proof -
  have "client_inv reg hb w0 s" using assms(1) by (rule lidar_client_of.reach_inv)
  moreover have "\<not> phase (lp_main s) \<le> 2" using assms(2) by (cases "lp_main s") simp_all
  ultimately show ?thesis using assms(2) by (simp add: client_inv_def client_run_def)
qed

text \<open>C11: The concurrent LIDAR process refines the sequential client. In every state reachable from a world,
  once the main thread has registered and unless the process was killed, the variables of the heartbeat
  thread and the registry's world are the result of the sequential client on some observations in
  which the thread kept running, so everything proved of the client holds of the process.\<close>

theorem lidar_process_refines_client:
  assumes "reach (\<lambda>s. s = lidar_init w0) (lidar_step reg hb) s"
    and "lp_main s \<notin> {MP_Build, MP_SpawnMetrics, MP_Register, MP_Killed}"
  shows "\<exists>obs sleeps. list_all (\<lambda>(heartbeat_running, g_running, _). heartbeat_running \<and> g_running) obs \<and>
           lidar_client reg hb obs w0 = Some (lp_vars s, lp_world s, sleeps)"
  using assms by (rule process_client)

section \<open>A concrete run\<close>

text \<open>A registry that accepts everything; its world counts the calls.\<close>

definition demo_reg :: "nat register_call" where
  "demo_reg req resp w = (Status_OK, resp\<lparr>rr_success := True, rr_session_id := ''s1''\<rparr>, Suc w)"

definition demo_hb :: "nat heartbeat_call" where
  "demo_hb req resp w = (Status_OK, resp\<lparr>hr_success := True\<rparr>, Suc w)"

text \<open>The node comes up, sends a heartbeat, and nobody has scraped it yet when the signal comes.\<close>

definition demo_up :: "lidar_event list" where
  "demo_up = [EvBuild True, EvMain, EvMain, EvMain, EvMetricsSetup True, EvMetricsTest, EvBeatTest, EvBeat 7, EvSignal]"

definition demo_down :: "lidar_event list" where
  "demo_down = [EvMain, EvMain, EvMain, EvMain, EvBeatWake, EvBeatTest, EvMain]"

definition demo_signalled :: "nat lidar_sys" where
  "demo_signalled =
     \<lparr>lp_g_running = False, lp_heartbeat_running = True, lp_main = MP_Wait, lp_server = Sv_Serving,
      lp_handlers = [], lp_heartbeat = HT_Sleep, lp_metrics = MT_Accept,
      lp_vars = \<lparr>hv_session_id = ''s1'', hv_consecutive_failures = 0, hv_needs_reregister = False\<rparr>,
      lp_world = 2\<rparr>"

definition demo_blocked :: "nat lidar_sys" where
  "demo_blocked = demo_signalled\<lparr>lp_heartbeat_running := False, lp_main := MP_JoinMetrics, lp_server := Sv_Shutdown,
     lp_heartbeat := HT_Exited\<rparr>"

lemma demo_up_steps: "steps (lidar_step demo_reg demo_hb) (lidar_init 0) demo_up demo_signalled"
  by (simp add: steps_simps step_simps demo_up_def lidar_init_def main_step_def alive_def try_register_node_def
      demo_reg_def demo_hb_def lidar_iteration_def lidar_beat_def demo_signalled_def status_ok_def Status_OK_def Let_def)

lemma demo_down_steps: "steps (lidar_step demo_reg demo_hb) demo_signalled demo_down demo_blocked"
  by (simp add: steps_simps step_simps demo_down_def demo_signalled_def demo_blocked_def main_step_def alive_def)

lemma demo_signalled_reachable: "lidar_reachable demo_reg demo_hb demo_signalled"
  by (rule reach_steps [OF demo_up_steps], rule reach_init) blast

lemma demo_blocked_reachable: "reach (\<lambda>s. s = lidar_init 0) (lidar_step demo_reg demo_hb) demo_blocked"
  by (rule reach_steps [OF demo_down_steps], rule reach_steps [OF demo_up_steps], rule reach_init) simp

theorem lidar_shutdown_order_witness:
  "\<exists>s. lidar_reachable demo_reg demo_hb s \<and> lp_main s = MP_Returned \<and> lp_metrics s = MT_Exited"
proof -
  let ?es = "[EvAccept False, EvMetricsTest, EvMain, EvMain, EvMain]"
  have "\<exists>s. steps (lidar_step demo_reg demo_hb) demo_blocked ?es s \<and> lp_main s = MP_Returned"
    by (simp add: steps_simps step_simps demo_blocked_def demo_signalled_def main_step_def alive_def)
  then obtain s where s: "steps (lidar_step demo_reg demo_hb) demo_blocked ?es s" "lp_main s = MP_Returned" by metis
  have "lidar_reachable demo_reg demo_hb s"
    by (rule reach_steps [OF s(1)], rule reach_steps [OF demo_down_steps]) (rule demo_signalled_reachable)
  with lidar_shutdown_order [OF this] s(2) show ?thesis by blast
qed


theorem lidar_exit_needs_connection_witness:
  "steps (lidar_step demo_reg demo_hb) demo_signalled demo_down demo_blocked \<and>
   lp_main demo_blocked = MP_JoinMetrics \<and> main_step demo_reg demo_blocked = None \<and> lp_metrics demo_blocked = MT_Accept"
proof -
  have "lp_metrics demo_signalled = MT_Accept" "\<forall>ok. EvAccept ok \<notin> set demo_down"
    by (simp_all add: demo_signalled_def demo_down_def)
  from lidar_exit_needs_connection [OF demo_signalled_reachable this(1) demo_down_steps this(2)]
  have "lp_metrics demo_blocked = MT_Accept" by simp
  with demo_down_steps show ?thesis by (simp add: demo_blocked_def main_step_def)
qed

theorem lidar_process_refines_client_witness:
  "\<exists>obs sleeps. lidar_client demo_reg demo_hb obs 0 = Some (lp_vars demo_blocked, 2, sleeps)"
proof -
  have "lp_main demo_blocked \<notin> {MP_Build, MP_SpawnMetrics, MP_Register, MP_Killed}" "lp_world demo_blocked = 2"
    by (simp_all add: demo_blocked_def demo_signalled_def)
  with lidar_process_refines_client [OF demo_blocked_reachable] show ?thesis by auto
qed

end
