(* ===== verification/Coro_Adapter.thy ===== *)
theory Coro_Adapter
  imports Messages
begin

text \<open>
  \<^verbatim>\<open>src/core/coro/coro_adapter.h\<close>, \<^verbatim>\<open>coro_adapter.cpp\<close> and \<^verbatim>\<open>stream_awaiters.h\<close>: the adapter that
  resumes coroutines from the events of a gRPC completion queue. The contexts live in an explicit
  heap; deleting one empties its cell and is logged, and reading an empty cell is the error
  \<open>UseAfterFree\<close>. What a coroutine does after it is resumed is code of the client, so \<open>resume\<close> is an
  argument, as are the results of \<^verbatim>\<open>AsyncNext\<close>.
\<close>

section \<open>Contexts and the heap\<close>

type_synonym addr = nat
type_synonym handle = nat

datatype ContextType = ASYNC_UNARY | STREAM_OP

record AsyncContext =
  ac_caller_handle :: "handle option"
  ac_grpc_status :: Status
  ac_ok :: bool
  ac_timed_out :: bool

record StreamContext =
  sc_caller_handle :: "handle option"
  sc_ok :: bool

text \<open>What a tag can point to; the constructor is the discriminator in the first byte.\<close>

datatype ctx_cell = Async AsyncContext | Stream StreamContext

fun context_type :: "ctx_cell \<Rightarrow> ContextType" where
  "context_type (Async _) = ASYNC_UNARY"
| "context_type (Stream _) = STREAM_OP"

text \<open>A \<^verbatim>\<open>grpc::Status\<close> is OK when default-constructed.\<close>

definition AsyncContext_new :: AsyncContext where
  "AsyncContext_new =
     \<lparr>ac_caller_handle = None, ac_grpc_status = Status_OK, ac_ok = False, ac_timed_out = False\<rparr>"

definition StreamContext_new :: StreamContext where
  "StreamContext_new = \<lparr>sc_caller_handle = None, sc_ok = False\<rparr>"

record coro_world =
  cw_heap :: "addr \<Rightarrow> ctx_cell option"
  cw_freed :: "addr list"
  cw_done :: "handle \<Rightarrow> bool"
  cw_resumed :: "handle list"

datatype coro_error = UseAfterFree addr | NullContext

type_synonym resume_fn = "handle \<Rightarrow> coro_world \<Rightarrow> coro_world"

definition store :: "addr \<Rightarrow> ctx_cell \<Rightarrow> coro_world \<Rightarrow> coro_world" where
  "store a c w = w\<lparr>cw_heap := (cw_heap w)(a := Some c)\<rparr>"

definition delete_ctx :: "addr \<Rightarrow> coro_world \<Rightarrow> coro_world" where
  "delete_ctx a w = w\<lparr>cw_heap := (cw_heap w)(a := None), cw_freed := cw_freed w @ [a]\<rparr>"

text \<open>\<^verbatim>\<open>if (h && !h.done()) h.resume();\<close>\<close>

definition resume_caller :: "resume_fn \<Rightarrow> handle option \<Rightarrow> coro_world \<Rightarrow> coro_world" where
  "resume_caller resume h w =
     (case h of
        None \<Rightarrow> w
      | Some k \<Rightarrow> if \<not> cw_done w k then resume k (w\<lparr>cw_resumed := cw_resumed w @ [k]\<rparr>) else w)"

section \<open>The poller\<close>

definition process_tag :: "resume_fn \<Rightarrow> addr option \<Rightarrow> bool \<Rightarrow> coro_world \<Rightarrow> coro_error + coro_world" where
  "process_tag resume tag ok w =
     (case tag of
        None \<Rightarrow> Inr w
      | Some a \<Rightarrow>
          (case cw_heap w a of
             None \<Rightarrow> Inl (UseAfterFree a)
           | Some (Async c) \<Rightarrow>
               let c1 = c\<lparr>ac_ok := ok\<rparr>;
                   c2 = (if \<not> ok then c1\<lparr>ac_grpc_status := mk_status SC_CANCELLED ''Async operation failed''\<rparr>
                         else c1\<lparr>ac_grpc_status := Status_OK\<rparr>);
                   w1 = store a (Async c2) w;
                   w2 = resume_caller resume (ac_caller_handle c2) w1
               in Inr (delete_ctx a w2)
           | Some (Stream c) \<Rightarrow>
               let c1 = c\<lparr>sc_ok := ok\<rparr>;
                   w1 = store a (Stream c1) w
               in Inr (resume_caller resume (sc_caller_handle c1) w1)))"

text \<open>The results of \<^verbatim>\<open>AsyncNext\<close>.\<close>

datatype next_status = GotEvent "addr option" bool | TimedOut | ShutdownSeen

text \<open>The drained count is the second component.\<close>

fun drain_remaining_tags :: "resume_fn \<Rightarrow> next_status list \<Rightarrow> coro_world \<Rightarrow> coro_error + coro_world \<times> nat" where
  "drain_remaining_tags resume [] w = Inr (w, 0)"
| "drain_remaining_tags resume (GotEvent tag ok # rs) w =
     (case process_tag resume tag ok w of
        Inl e \<Rightarrow> Inl e
      | Inr w1 \<Rightarrow>
          (case drain_remaining_tags resume rs w1 of
             Inl e \<Rightarrow> Inl e
           | Inr (w2, drained) \<Rightarrow> Inr (w2, Suc drained)))"
| "drain_remaining_tags resume (_ # rs) w = Inr (w, 0)"

datatype poll_exit = PollRunning | PollStopped | PollShutDown

text \<open>An observation of the poll loop is the stop token and the result of \<^verbatim>\<open>AsyncNext\<close>.\<close>

fun poll_loop :: "resume_fn \<Rightarrow> (bool \<times> next_status) list \<Rightarrow> coro_world \<Rightarrow> coro_error + poll_exit \<times> coro_world" where
  "poll_loop resume [] w = Inr (PollRunning, w)"
| "poll_loop resume ((stop, r) # rs) w =
     (if stop then Inr (PollStopped, w)
      else case r of
        GotEvent tag ok \<Rightarrow>
          (case process_tag resume tag ok w of Inl e \<Rightarrow> Inl e | Inr w1 \<Rightarrow> poll_loop resume rs w1)
      | ShutdownSeen \<Rightarrow>
          (case drain_remaining_tags resume (map snd rs) w of
             Inl e \<Rightarrow> Inl e | Inr (w1, drained) \<Rightarrow> Inr (PollShutDown, w1))
      | TimedOut \<Rightarrow> poll_loop resume rs w)"

section \<open>Unary operations\<close>

record AwaitableOperation =
  ao_ctx :: "addr option"
  ao_timeout_ms :: int

text \<open>\<^verbatim>\<open>await_suspend\<close>: \<open>start_fn\<close> hands the tag to gRPC and may throw (result False).\<close>

definition await_suspend ::
    "(addr \<Rightarrow> coro_world \<Rightarrow> bool \<times> coro_world) \<Rightarrow> handle \<Rightarrow> AwaitableOperation \<Rightarrow> coro_world
     \<Rightarrow> coro_error + bool \<times> coro_world" where
  "await_suspend start_fn h op w =
     (case ao_ctx op of
        None \<Rightarrow> Inl NullContext
      | Some a \<Rightarrow>
          (case cw_heap w a of
             Some (Async c) \<Rightarrow>
               let w1 = store a (Async (c\<lparr>ac_caller_handle := Some h, ac_timed_out := False\<rparr>)) w;
                   (started, w2) = start_fn a w1
               in if \<not> started then Inr (False, delete_ctx a w2) else Inr (True, w2)
           | _ \<Rightarrow> Inl (UseAfterFree a)))"

definition await_resume ::
    "AwaitableOperation \<Rightarrow> coro_world \<Rightarrow> coro_error + Status \<times> AwaitableOperation" where
  "await_resume op w =
     (case ao_ctx op of
        None \<Rightarrow> Inl NullContext
      | Some a \<Rightarrow>
          (case cw_heap w a of
             Some (Async c) \<Rightarrow>
               if ac_timed_out c then
                 Inr (mk_status SC_DEADLINE_EXCEEDED ''Operation timed out'', op)
               else Inr (ac_grpc_status c, op\<lparr>ao_ctx := None\<rparr>)
           | _ \<Rightarrow> Inl (UseAfterFree a)))"

definition cancel_with_timeout ::
    "resume_fn \<Rightarrow> AwaitableOperation \<Rightarrow> coro_world \<Rightarrow> coro_error + coro_world" where
  "cancel_with_timeout resume op w =
     (case ao_ctx op of
        None \<Rightarrow> Inr w
      | Some a \<Rightarrow>
          (case cw_heap w a of
             Some (Async c) \<Rightarrow>
               let c1 = c\<lparr>ac_timed_out := True,
                          ac_grpc_status := mk_status SC_DEADLINE_EXCEEDED ''Timed out''\<rparr>
               in Inr (resume_caller resume (ac_caller_handle c1) (store a (Async c1) w))
           | _ \<Rightarrow> Inl (UseAfterFree a)))"

section \<open>Stream operations\<close>

text \<open>
  The awaiters hold their context as a member, here the cell at \<open>a\<close>. \<open>submit\<close> is the gRPC stream:
  it starts an operation with the context as tag (\<^verbatim>\<open>Read\<close>, \<^verbatim>\<open>Write\<close>, \<^verbatim>\<open>WritesDone\<close>, \<^verbatim>\<open>Finish\<close>).
\<close>

datatype 'm stream_op = ReadOp | WriteOp 'm | WritesDoneOp | FinishOp

type_synonym 'm submit_fn = "'m stream_op \<Rightarrow> addr \<Rightarrow> coro_world \<Rightarrow> coro_world"

definition stream_suspend ::
    "'m submit_fn \<Rightarrow> 'm stream_op \<Rightarrow> handle \<Rightarrow> addr \<Rightarrow> coro_world \<Rightarrow> coro_error + coro_world" where
  "stream_suspend submit op h a w =
     (case cw_heap w a of
        Some (Stream c) \<Rightarrow> Inr (submit op a (store a (Stream (c\<lparr>sc_caller_handle := Some h\<rparr>)) w))
      | _ \<Rightarrow> Inl (UseAfterFree a))"

definition StreamReadAwaiter_await_suspend ::
    "'m submit_fn \<Rightarrow> handle \<Rightarrow> addr \<Rightarrow> coro_world \<Rightarrow> coro_error + coro_world" where
  "StreamReadAwaiter_await_suspend submit h a w = stream_suspend submit ReadOp h a w"

definition StreamWriteAwaiter_await_suspend ::
    "'m submit_fn \<Rightarrow> 'm \<Rightarrow> handle \<Rightarrow> addr \<Rightarrow> coro_world \<Rightarrow> coro_error + coro_world" where
  "StreamWriteAwaiter_await_suspend submit msg h a w = stream_suspend submit (WriteOp msg) h a w"

definition StreamWritesDoneAwaiter_await_suspend ::
    "'m submit_fn \<Rightarrow> handle \<Rightarrow> addr \<Rightarrow> coro_world \<Rightarrow> coro_error + coro_world" where
  "StreamWritesDoneAwaiter_await_suspend submit h a w = stream_suspend submit WritesDoneOp h a w"

definition StreamFinishAwaiter_await_suspend ::
    "'m submit_fn \<Rightarrow> handle \<Rightarrow> addr \<Rightarrow> coro_world \<Rightarrow> coro_error + coro_world" where
  "StreamFinishAwaiter_await_suspend submit h a w = stream_suspend submit FinishOp h a w"

text \<open>Reading, writing and ending the writes resume with the flag of the context, finishing with the
  status variable the call filled.\<close>

definition stream_await_resume :: "addr \<Rightarrow> coro_world \<Rightarrow> coro_error + bool" where
  "stream_await_resume a w =
     (case cw_heap w a of Some (Stream c) \<Rightarrow> Inr (sc_ok c) | _ \<Rightarrow> Inl (UseAfterFree a))"

definition StreamFinishAwaiter_await_resume :: "Status \<Rightarrow> Status" where
  "StreamFinishAwaiter_await_resume status = status"

text \<open>\<^verbatim>\<open>AsyncStream\<close>: \<^verbatim>\<open>co_await stream.read(m)\<close> and its siblings construct the awaiter with a new
  context and suspend.\<close>

definition AsyncStream_await ::
    "'m submit_fn \<Rightarrow> 'm stream_op \<Rightarrow> handle \<Rightarrow> addr \<Rightarrow> coro_world \<Rightarrow> coro_error + coro_world" where
  "AsyncStream_await submit op h a w =
     (let w1 = store a (Stream StreamContext_new) w
      in case op of
           ReadOp \<Rightarrow> StreamReadAwaiter_await_suspend submit h a w1
         | WriteOp msg \<Rightarrow> StreamWriteAwaiter_await_suspend submit msg h a w1
         | WritesDoneOp \<Rightarrow> StreamWritesDoneAwaiter_await_suspend submit h a w1
         | FinishOp \<Rightarrow> StreamFinishAwaiter_await_suspend submit h a w1)"

section \<open>Adapters of a process\<close>

text \<open>
  The adapters of one process by number, each with its poller thread and whether its queue is shut
  down, and the function-local static \<^verbatim>\<open>shutdown_flag\<close> of \<^verbatim>\<open>CoroAdapter::shutdown\<close>, of which the
  process has only one.
\<close>

record CoroAdapter =
  ca_cq_shutdown :: bool
  ca_poller_thread :: jthread

record adapter_process =
  ap_adapters :: "nat \<Rightarrow> CoroAdapter"
  ap_shutdown_flag :: bool

definition CoroAdapter_new :: CoroAdapter where
  "CoroAdapter_new = \<lparr>ca_cq_shutdown = False, ca_poller_thread = Joinable False\<rparr>"

definition CoroAdapter_shutdown :: "nat \<Rightarrow> adapter_process \<Rightarrow> adapter_process" where
  "CoroAdapter_shutdown i p =
     (if ap_shutdown_flag p then p
      else p\<lparr>ap_shutdown_flag := True,
             ap_adapters := (ap_adapters p)(i := (ap_adapters p i)\<lparr>ca_cq_shutdown := True\<rparr>)\<rparr>)"

definition CoroAdapter_is_running :: "CoroAdapter \<Rightarrow> bool" where
  "CoroAdapter_is_running c = (case ca_poller_thread c of NotJoinable \<Rightarrow> False | Joinable stop \<Rightarrow> \<not> stop)"

section \<open>Processing one tag\<close>

text \<open>
  What the poller relies on of a resumed coroutine: it does not touch a unary context (those belong
  to the poller) or the stream context of another coroutine, it revives no deleted context, and it
  neither deletes contexts nor resumes or finishes other coroutines behind the poller's back.
\<close>

definition polite :: "resume_fn \<Rightarrow> bool" where
  "polite resume \<longleftrightarrow>
     (\<forall>h w. (\<forall>a c. cw_heap w a = Some (Async c) \<longrightarrow> cw_heap (resume h w) a = Some (Async c)) \<and>
            (\<forall>a c. cw_heap w a = Some (Stream c) \<longrightarrow> sc_caller_handle c \<noteq> Some h \<longrightarrow>
               cw_heap (resume h w) a = Some (Stream c)) \<and>
            (\<forall>a \<in> set (cw_freed w). cw_heap w a = None \<longrightarrow> cw_heap (resume h w) a = None) \<and>
            cw_freed (resume h w) = cw_freed w \<and> cw_resumed (resume h w) = cw_resumed w \<and>
            (\<forall>k. k \<noteq> h \<longrightarrow> cw_done (resume h w) k = cw_done w k))"

fun handle_of :: "ctx_cell \<Rightarrow> handle option" where
  "handle_of (Async c) = ac_caller_handle c"
| "handle_of (Stream c) = sc_caller_handle c"

definition live_handles :: "coro_world \<Rightarrow> handle option \<Rightarrow> handle list" where
  "live_handles w h = (case h of None \<Rightarrow> [] | Some k \<Rightarrow> if cw_done w k then [] else [k])"

lemma resume_caller_frame:
  assumes "polite resume"
  shows "cw_heap w a = Some (Async c) \<Longrightarrow> cw_heap (resume_caller resume h w) a = Some (Async c)"
    and "cw_heap w a = Some (Stream sc) \<Longrightarrow> sc_caller_handle sc \<noteq> h \<Longrightarrow>
         cw_heap (resume_caller resume h w) a = Some (Stream sc)"
    and "cw_freed (resume_caller resume h w) = cw_freed w"
    and "cw_resumed (resume_caller resume h w) = cw_resumed w @ live_handles w h"
    and "h \<noteq> Some k \<Longrightarrow> cw_done (resume_caller resume h w) k = cw_done w k"
    and "a \<in> set (cw_freed w) \<Longrightarrow> cw_heap w a = None \<Longrightarrow> cw_heap (resume_caller resume h w) a = None"
  using assms
  by (auto simp: polite_def resume_caller_def live_handles_def split: option.split)

lemma process_tag_live:
  assumes "polite resume" and "cw_heap w a = Some c"
  shows "\<exists>w'. process_tag resume (Some a) ok w = Inr w' \<and>
           cw_freed w' = cw_freed w @ (if context_type c = ASYNC_UNARY then [a] else []) \<and>
           cw_resumed w' = cw_resumed w @ live_handles w (handle_of c) \<and>
           (context_type c = ASYNC_UNARY \<longrightarrow> cw_heap w' a = None) \<and>
           (\<forall>b d. b \<noteq> a \<longrightarrow> cw_heap w b = Some d \<longrightarrow> handle_of d \<noteq> handle_of c \<longrightarrow> cw_heap w' b = Some d) \<and>
           (\<forall>k. handle_of c \<noteq> Some k \<longrightarrow> cw_done w' k = cw_done w k) \<and>
           (\<forall>b \<in> set (cw_freed w). b \<noteq> a \<longrightarrow> cw_heap w b = None \<longrightarrow> cw_heap w' b = None)"
proof -
  note frame = resume_caller_frame [OF assms(1)]
  have live: "live_handles (store a d w) h = live_handles w h" for d h
    by (simp add: live_handles_def store_def split: option.split)
  show ?thesis
  proof (cases c)
    case (Async ac)
    let ?c = "Async (ac\<lparr>ac_ok := ok, ac_grpc_status :=
      if ok then Status_OK else mk_status SC_CANCELLED ''Async operation failed''\<rparr>)"
    let ?w = "resume_caller resume (ac_caller_handle ac) (store a ?c w)"
    have "process_tag resume (Some a) ok w = Inr (delete_ctx a ?w)"
      using assms(2) Async by (simp add: process_tag_def)
    moreover have "cw_heap ?w b = Some d"
      if "b \<noteq> a" "cw_heap w b = Some d" "handle_of d \<noteq> ac_caller_handle ac" for b d
      using that frame(1,2) [of "store a ?c w" b] by (cases d) (auto simp: store_def)
    moreover have "cw_heap ?w b = None" if "b \<in> set (cw_freed w)" "b \<noteq> a" "cw_heap w b = None" for b
      using that frame(6) [of b "store a ?c w"] by (simp add: store_def)
    ultimately show ?thesis
      using Async frame(3-5) [where w = "store a ?c w"] by (auto simp: delete_ctx_def live) (simp_all add: store_def)
  next
    case (Stream sc)
    let ?c = "Stream (sc\<lparr>sc_ok := ok\<rparr>)"
    let ?w = "resume_caller resume (sc_caller_handle sc) (store a ?c w)"
    have "process_tag resume (Some a) ok w = Inr ?w"
      using assms(2) Stream by (simp add: process_tag_def)
    moreover have "cw_heap ?w b = Some d"
      if "b \<noteq> a" "cw_heap w b = Some d" "handle_of d \<noteq> sc_caller_handle sc" for b d
      using that frame(1,2) [of "store a ?c w" b] by (cases d) (auto simp: store_def)
    moreover have "cw_heap ?w b = None" if "b \<in> set (cw_freed w)" "b \<noteq> a" "cw_heap w b = None" for b
      using that frame(6) [of b "store a ?c w"] by (simp add: store_def)
    ultimately show ?thesis
      using Stream frame(3-5) [where w = "store a ?c w"] by (auto simp: live) (simp_all add: store_def)
  qed
qed

section \<open>Processing all tags\<close>

text \<open>Pending operations: their contexts are alive and belong to different suspended coroutines.\<close>

definition pending_ok :: "coro_world \<Rightarrow> addr list \<Rightarrow> bool" where
  "pending_ok w as \<longleftrightarrow>
     distinct as \<and>
     (\<forall>a \<in> set as. \<exists>c k. cw_heap w a = Some c \<and> handle_of c = Some k) \<and>
     distinct (map (\<lambda>a. handle_of (the (cw_heap w a))) as)"

definition is_async :: "coro_world \<Rightarrow> addr \<Rightarrow> bool" where
  "is_async w a \<longleftrightarrow> (case cw_heap w a of Some c \<Rightarrow> context_type c = ASYNC_UNARY | None \<Rightarrow> False)"

definition handles_of :: "coro_world \<Rightarrow> addr list \<Rightarrow> handle list" where
  "handles_of w as = map (\<lambda>a. the (handle_of (the (cw_heap w a)))) as"

fun process_all :: "resume_fn \<Rightarrow> (addr \<times> bool) list \<Rightarrow> coro_world \<Rightarrow> coro_error + coro_world" where
  "process_all resume [] w = Inr w"
| "process_all resume ((a, ok) # es) w =
     (case process_tag resume (Some a) ok w of Inl e \<Rightarrow> Inl e | Inr w1 \<Rightarrow> process_all resume es w1)"

text \<open>One event leaves what the later ones need as it was.\<close>

lemma process_tag_pending:
  assumes "polite resume" and "pending_ok w (a # as)"
  shows "\<exists>w1 c k. process_tag resume (Some a) ok w = Inr w1 \<and>
           cw_heap w a = Some c \<and> handle_of c = Some k \<and> pending_ok w1 as \<and>
           (\<forall>b \<in> set as. cw_heap w1 b = cw_heap w b) \<and>
           cw_freed w1 = cw_freed w @ (if is_async w a then [a] else []) \<and>
           cw_resumed w1 = cw_resumed w @ (if cw_done w k then [] else [k]) \<and>
           (is_async w a \<longrightarrow> cw_heap w1 a = None) \<and>
           (\<forall>b \<in> set as. cw_done w1 (the (handle_of (the (cw_heap w b)))) =
              cw_done w (the (handle_of (the (cw_heap w b))))) \<and>
           (\<forall>b \<in> set (cw_freed w). b \<noteq> a \<longrightarrow> cw_heap w b = None \<longrightarrow> cw_heap w1 b = None)"
proof -
  obtain c k where c: "cw_heap w a = Some c" "handle_of c = Some k"
    using assms(2) by (auto simp: pending_ok_def)
  from process_tag_live [OF assms(1) c(1), of ok] obtain w1 where
    w1: "process_tag resume (Some a) ok w = Inr w1"
      "cw_freed w1 = cw_freed w @ (if context_type c = ASYNC_UNARY then [a] else [])"
      "cw_resumed w1 = cw_resumed w @ live_handles w (handle_of c)"
      "context_type c = ASYNC_UNARY \<longrightarrow> cw_heap w1 a = None"
      "\<And>b d. b \<noteq> a \<Longrightarrow> cw_heap w b = Some d \<Longrightarrow> handle_of d \<noteq> handle_of c \<Longrightarrow> cw_heap w1 b = Some d"
      "\<And>j. handle_of c \<noteq> Some j \<Longrightarrow> cw_done w1 j = cw_done w j"
      "\<And>b. b \<in> set (cw_freed w) \<Longrightarrow> b \<noteq> a \<Longrightarrow> cw_heap w b = None \<Longrightarrow> cw_heap w1 b = None"
    by blast
  have others: "\<exists>d j. cw_heap w b = Some d \<and> handle_of d = Some j \<and> j \<noteq> k \<and> b \<noteq> a" if "b \<in> set as" for b
    using assms(2) that c by (force simp: pending_ok_def)
  then have same: "cw_heap w1 b = cw_heap w b" if "b \<in> set as" for b
    using w1(5) c(2) that by fastforce
  then have "map (\<lambda>a. handle_of (the (cw_heap w1 a))) as = map (\<lambda>a. handle_of (the (cw_heap w a))) as" by simp
  then have "pending_ok w1 as"
    using assms(2) same unfolding pending_ok_def by (metis distinct.simps(2) list.set_intros(2) list.simps(9))
  moreover have "cw_done w1 (the (handle_of (the (cw_heap w b)))) =
      cw_done w (the (handle_of (the (cw_heap w b))))" if "b \<in> set as" for b
    using others [OF that] w1(6) c(2) by fastforce
  ultimately show ?thesis
    using w1 c same by (intro exI [of _ w1] exI [of _ c] exI [of _ k]) (simp add: is_async_def live_handles_def)
qed

lemma process_all_pending:
  assumes "polite resume" and "pending_ok w (map fst es)"
  shows "\<exists>w'. process_all resume es w = Inr w' \<and>
           cw_freed w' = cw_freed w @ filter (is_async w) (map fst es) \<and>
           cw_resumed w' = cw_resumed w @ filter (\<lambda>k. \<not> cw_done w k) (handles_of w (map fst es)) \<and>
           (\<forall>a \<in> set (map fst es). is_async w a \<longrightarrow> cw_heap w' a = None) \<and>
           (\<forall>b \<in> set (cw_freed w) - set (map fst es). cw_heap w b = None \<longrightarrow> cw_heap w' b = None)"
  using assms(2)
proof (induction es arbitrary: w)
  case Nil
  then show ?case by (simp add: handles_of_def)
next
  case (Cons ev es)
  obtain a ok where ev: "ev = (a, ok)" by force
  let ?as = "map fst es"
  have pend: "pending_ok w (a # ?as)" using Cons.prems by (simp add: ev)
  then have a: "a \<notin> set ?as" by (simp add: pending_ok_def)
  obtain w1 c k where w1: "process_tag resume (Some a) ok w = Inr w1"
    "cw_heap w a = Some c" "handle_of c = Some k" "pending_ok w1 ?as"
    "\<forall>b \<in> set ?as. cw_heap w1 b = cw_heap w b"
    "cw_freed w1 = cw_freed w @ (if is_async w a then [a] else [])"
    "cw_resumed w1 = cw_resumed w @ (if cw_done w k then [] else [k])"
    "is_async w a \<longrightarrow> cw_heap w1 a = None"
    "\<forall>b \<in> set ?as. cw_done w1 (the (handle_of (the (cw_heap w b)))) =
       cw_done w (the (handle_of (the (cw_heap w b))))"
    "\<forall>b \<in> set (cw_freed w). b \<noteq> a \<longrightarrow> cw_heap w b = None \<longrightarrow> cw_heap w1 b = None"
    using process_tag_pending [OF assms(1) pend, of ok] by blast
  have async: "is_async w1 b = is_async w b" if "b \<in> set ?as" for b
    unfolding is_async_def bspec [OF w1(5) that] ..
  have hs: "handles_of w1 ?as = handles_of w ?as" using w1(5) by (simp add: handles_of_def)
  have dn: "filter (\<lambda>k. \<not> cw_done w1 k) (handles_of w ?as) = filter (\<lambda>k. \<not> cw_done w k) (handles_of w ?as)"
    using w1(9) by (intro filter_cong) (auto simp: handles_of_def)
  have fa: "filter (is_async w1) ?as = filter (is_async w) ?as" using async by (intro filter_cong) auto
  from Cons.IH [OF w1(4)] obtain w' where w': "process_all resume es w1 = Inr w'"
    "cw_freed w' = cw_freed w1 @ filter (is_async w) ?as"
    "cw_resumed w' = cw_resumed w1 @ filter (\<lambda>k. \<not> cw_done w k) (handles_of w ?as)"
    "\<forall>b \<in> set ?as. is_async w b \<longrightarrow> cw_heap w' b = None"
    "\<forall>b \<in> set (cw_freed w1) - set ?as. cw_heap w1 b = None \<longrightarrow> cw_heap w' b = None"
    using hs dn fa async by auto
  have "cw_heap w' a = None" if "is_async w a"
    using that w1(6,8) w'(5) a by simp
  then have heap: "\<forall>b \<in> set (a # ?as). is_async w b \<longrightarrow> cw_heap w' b = None" using w'(4) by simp
  have keep: "\<forall>b \<in> set (cw_freed w) - set (a # ?as). cw_heap w b = None \<longrightarrow> cw_heap w' b = None"
    using w1(6,10) w'(5) by auto
  have "process_all resume (ev # es) w = Inr w'" using w1(1) w'(1) by (simp add: ev)
  moreover have "cw_freed w' = cw_freed w @ filter (is_async w) (a # ?as)" using w1(6) w'(2) by simp
  moreover have "cw_resumed w' = cw_resumed w @ filter (\<lambda>k. \<not> cw_done w k) (handles_of w (a # ?as))"
    using w1(2,3,7) w'(3) by (simp add: handles_of_def)
  ultimately show ?case using heap keep by (intro exI [of _ w']) (simp add: ev)
qed

text \<open>The events in a run of the poll loop, and how the run processes them.\<close>

fun events_of :: "(bool \<times> next_status) list \<Rightarrow> (addr \<times> bool) list" where
  "events_of [] = []"
| "events_of ((stop, GotEvent (Some a) ok) # ts) = (a, ok) # events_of ts"
| "events_of ((stop, _) # ts) = events_of ts"

lemma poll_loop_events:
  assumes "list_all (\<lambda>(stop, r). \<not> stop \<and> r \<noteq> ShutdownSeen) ts" and "process_all resume (events_of ts) w = Inr w'"
  shows "poll_loop resume ts w = Inr (PollRunning, w')"
  using assms
  by (induction ts arbitrary: w rule: events_of.induct)
    (auto simp: process_tag_def split: sum.splits next_status.splits option.splits)

lemma poll_loop_append:
  assumes "poll_loop resume ts w = Inr (PollRunning, w1)"
  shows "poll_loop resume (ts @ us) w = poll_loop resume us w1"
  using assms
  by (induction resume ts w rule: poll_loop.induct) (auto split: if_splits sum.splits next_status.splits)

text \<open>C8: The poller neither leaks nor double-frees. If the operations whose tags the queue returns were
  pending, each with its own suspended coroutine, then a run of the poll loop that ends with the
  queue's shutdown meets no freed context, deletes the context of every unary operation exactly
  once and no stream context, and resumes every coroutine that is not done exactly once, in the
  order of the events.\<close>

theorem poller_frees_once_resumes_once:
  assumes "polite resume" and "list_all (\<lambda>(stop, r). \<not> stop \<and> r \<noteq> ShutdownSeen) ts"
    and "pending_ok w (map fst (events_of ts))"
  shows "\<exists>w'. poll_loop resume (ts @ [(False, ShutdownSeen), (stop, ShutdownSeen)]) w = Inr (PollShutDown, w') \<and>
           cw_freed w' = cw_freed w @ filter (is_async w) (map fst (events_of ts)) \<and>
           (\<forall>a \<in> set (map fst (events_of ts)). is_async w a \<longrightarrow> cw_heap w' a = None) \<and>
           cw_resumed w' = cw_resumed w @
             filter (\<lambda>k. \<not> cw_done w k) (handles_of w (map fst (events_of ts)))"
proof -
  obtain w' where w': "process_all resume (events_of ts) w = Inr w'"
    "cw_freed w' = cw_freed w @ filter (is_async w) (map fst (events_of ts))"
    "cw_resumed w' = cw_resumed w @ filter (\<lambda>k. \<not> cw_done w k) (handles_of w (map fst (events_of ts)))"
    "\<forall>a \<in> set (map fst (events_of ts)). is_async w a \<longrightarrow> cw_heap w' a = None"
    using process_all_pending [OF assms(1,3)] by blast
  have "poll_loop resume (ts @ [(False, ShutdownSeen), (stop, ShutdownSeen)]) w = Inr (PollShutDown, w')"
    using poll_loop_append [OF poll_loop_events [OF assms(2) w'(1)]] by simp
  with w' show ?thesis by blast
qed

definition demo_resume :: resume_fn where
  "demo_resume h w = w\<lparr>cw_done := (cw_done w)(h := True)\<rparr>"

definition demo_world :: coro_world where
  "demo_world =
     \<lparr>cw_heap = [1 \<mapsto> Async (AsyncContext_new\<lparr>ac_caller_handle := Some 10\<rparr>),
                 2 \<mapsto> Stream (StreamContext_new\<lparr>sc_caller_handle := Some 20\<rparr>)],
      cw_freed = [], cw_done = (\<lambda>_. False), cw_resumed = []\<rparr>"

lemma demo_resume_polite: "polite demo_resume"
  by (simp add: polite_def demo_resume_def)

theorem poller_frees_once_resumes_once_witness:
  "\<exists>w'. poll_loop demo_resume
         ([(False, GotEvent (Some 2) True), (False, TimedOut), (False, GotEvent (Some 1) False)] @
          [(False, ShutdownSeen), (False, ShutdownSeen)]) demo_world = Inr (PollShutDown, w') \<and>
       cw_freed w' = [1] \<and> cw_resumed w' = [20, 10]"
proof -
  let ?ts = "[(False, GotEvent (Some 2) True), (False, TimedOut), (False, GotEvent (Some 1) False)]"
  have pend: "pending_ok demo_world (map fst (events_of ?ts))" by (simp add: pending_ok_def demo_world_def)
  have "list_all (\<lambda>(stop, r). \<not> stop \<and> r \<noteq> ShutdownSeen) ?ts" by simp
  from poller_frees_once_resumes_once [OF demo_resume_polite this pend, of False] obtain w' where
    "poll_loop demo_resume (?ts @ [(False, ShutdownSeen), (False, ShutdownSeen)]) demo_world = Inr (PollShutDown, w')"
    "cw_freed w' = cw_freed demo_world @ filter (is_async demo_world) (map fst (events_of ?ts))"
    "cw_resumed w' = cw_resumed demo_world @
       filter (\<lambda>k. \<not> cw_done demo_world k) (handles_of demo_world (map fst (events_of ?ts)))" by blast
  moreover have "filter (is_async demo_world) (map fst (events_of ?ts)) = [1]"
    "filter (\<lambda>k. \<not> cw_done demo_world k) (handles_of demo_world (map fst (events_of ?ts))) = [20, 10]"
    "cw_freed demo_world = []" "cw_resumed demo_world = []"
    by (simp_all add: demo_world_def is_async_def handles_of_def)
  ultimately show ?thesis by (metis append_Nil)
qed

section \<open>Single operations\<close>

text \<open>C34: The outcome of a unary call. A coroutine that awaits an operation is resumed by the event of
  its tag in a world where it reads the status of the call, OK if the event was successful and
  CANCELLED otherwise, and drops its pointer; only afterwards is the context deleted. If starting the
  operation throws, the context is deleted at once and nothing is resumed.\<close>

theorem unary_call_outcome:
  assumes "ao_ctx op = Some a" and "cw_heap w a = Some (Async c)" and "\<not> cw_done w h"
  shows "\<exists>w1. await_suspend (\<lambda>a w. (True, w)) h op w = Inr (True, w1) \<and>
           (\<exists>w2. process_tag resume (Some a) ok w1 = Inr (delete_ctx a (resume h w2)) \<and>
              cw_resumed w2 = cw_resumed w @ [h] \<and>
              await_resume op w2 =
                Inr (if ok then Status_OK else mk_status SC_CANCELLED ''Async operation failed'',
                     op\<lparr>ao_ctx := None\<rparr>)) \<and>
         (\<exists>w3. await_suspend (\<lambda>a w. (False, w)) h op w = Inr (False, w3) \<and>
              cw_heap w3 a = None \<and> cw_freed w3 = cw_freed w @ [a] \<and> cw_resumed w3 = cw_resumed w)"
proof -
  let ?c = "c\<lparr>ac_caller_handle := Some h, ac_timed_out := False\<rparr>"
  let ?st = "if ok then Status_OK else mk_status SC_CANCELLED ''Async operation failed''"
  let ?w1 = "store a (Async ?c) w"
  let ?w2 = "(store a (Async (?c\<lparr>ac_ok := ok, ac_grpc_status := ?st\<rparr>)) ?w1)\<lparr>cw_resumed := cw_resumed w @ [h]\<rparr>"
  have "await_suspend (\<lambda>a w. (True, w)) h op w = Inr (True, ?w1)"
    using assms by (simp add: await_suspend_def)
  moreover have "process_tag resume (Some a) ok ?w1 = Inr (delete_ctx a (resume h ?w2))"
    using assms(3) by (simp add: process_tag_def resume_caller_def store_def Let_def)
  moreover have "await_resume op ?w2 = Inr (?st, op\<lparr>ao_ctx := None\<rparr>)" "cw_resumed ?w2 = cw_resumed w @ [h]"
    using assms(1) by (simp_all add: await_resume_def store_def)
  moreover have "await_suspend (\<lambda>a w. (False, w)) h op w = Inr (False, delete_ctx a ?w1)"
    "cw_heap (delete_ctx a ?w1) a = None" "cw_freed (delete_ctx a ?w1) = cw_freed w @ [a]"
    "cw_resumed (delete_ctx a ?w1) = cw_resumed w"
    using assms by (simp_all add: await_suspend_def delete_ctx_def store_def)
  ultimately show ?thesis by blast
qed

theorem unary_call_outcome_witness:
  "\<exists>w1. await_suspend (\<lambda>a w. (True, w)) 10 \<lparr>ao_ctx = Some 1, ao_timeout_ms = 0\<rparr> demo_world = Inr (True, w1) \<and>
     (\<exists>w2. process_tag demo_resume (Some 1) True w1 = Inr (delete_ctx 1 (demo_resume 10 w2)) \<and>
        await_resume \<lparr>ao_ctx = Some 1, ao_timeout_ms = 0\<rparr> w2 = Inr (Status_OK, \<lparr>ao_ctx = None, ao_timeout_ms = 0\<rparr>))"
proof -
  let ?op = "\<lparr>ao_ctx = Some 1, ao_timeout_ms = 0\<rparr>"
  have "ao_ctx ?op = Some 1"
    "cw_heap demo_world 1 = Some (Async (AsyncContext_new\<lparr>ac_caller_handle := Some 10\<rparr>))"
    "\<not> cw_done demo_world 10" by (simp_all add: demo_world_def)
  from unary_call_outcome [OF this, of demo_resume True] show ?thesis by auto
qed

text \<open>A stream operation that a coroutine awaits resumes exactly that coroutine, once, in a world where
  the awaiter returns the success flag of the event, and the poller leaves the context to the
  coroutine; this holds for reads, writes, the end of writes and the finish alike.\<close>

lemma stream_await_roundtrip:
  assumes "\<not> cw_done w h"
  shows "\<exists>w1. AsyncStream_await (\<lambda>op a w. w) op h a w = Inr w1 \<and>
           (\<exists>w2. process_tag resume (Some a) ok w1 = Inr (resume h w2) \<and>
              stream_await_resume a w2 = Inr ok \<and> cw_resumed w2 = cw_resumed w @ [h] \<and>
              cw_freed w2 = cw_freed w)"
  using assms
  by (cases op)
    (auto simp: AsyncStream_await_def StreamReadAwaiter_await_suspend_def StreamWriteAwaiter_await_suspend_def
      StreamWritesDoneAwaiter_await_suspend_def StreamFinishAwaiter_await_suspend_def stream_suspend_def
      process_tag_def stream_await_resume_def resume_caller_def store_def)

text \<open>C39: A timeout resumes the coroutine twice. Cancelling a pending operation resumes its coroutine but
  leaves the tag in the queue; when the event of the operation arrives, a coroutine that is still
  alive, by then suspended somewhere else, is resumed a second time.\<close>

theorem timeout_resumes_twice:
  assumes "polite resume" and "ao_ctx op = Some a" and "cw_heap w a = Some (Async c)"
    and "ac_caller_handle c = Some h" and "\<And>w. cw_done (resume h w) h = cw_done w h" and "\<not> cw_done w h"
  shows "\<exists>w1 w2. cancel_with_timeout resume op w = Inr w1 \<and> process_tag resume (Some a) ok w1 = Inr w2 \<and>
           cw_resumed w2 = cw_resumed w @ [h, h]"
proof -
  let ?c = "c\<lparr>ac_timed_out := True, ac_grpc_status := mk_status SC_DEADLINE_EXCEEDED ''Timed out''\<rparr>"
  let ?w1 = "resume h ((store a (Async ?c) w)\<lparr>cw_resumed := cw_resumed w @ [h]\<rparr>)"
  have w1: "cancel_with_timeout resume op w = Inr ?w1"
    using assms(2-4,6) by (simp add: cancel_with_timeout_def resume_caller_def store_def)
  have heap: "cw_heap ?w1 a = Some (Async ?c)" and res: "cw_resumed ?w1 = cw_resumed w @ [h]"
    using assms(1) by (simp_all add: polite_def store_def)
  have "\<not> cw_done ?w1 h" using assms(5,6) by (simp add: store_def)
  then have "live_handles ?w1 (handle_of (Async ?c)) = [h]" using assms(4) by (simp add: live_handles_def)
  with process_tag_live [OF assms(1) heap, of ok] obtain w2 where
    "process_tag resume (Some a) ok ?w1 = Inr w2" "cw_resumed w2 = cw_resumed ?w1 @ [h]" by auto
  with w1 res show ?thesis by auto
qed

definition demo_resume_again :: resume_fn where
  "demo_resume_again h w = w"

theorem timeout_resumes_twice_witness:
  "\<exists>w1 w2. cancel_with_timeout demo_resume_again \<lparr>ao_ctx = Some 1, ao_timeout_ms = 50\<rparr> demo_world = Inr w1 \<and>
     process_tag demo_resume_again (Some 1) True w1 = Inr w2 \<and> cw_resumed w2 = [10, 10]"
proof -
  let ?op = "\<lparr>ao_ctx = Some 1, ao_timeout_ms = 50\<rparr>"
  let ?c = "AsyncContext_new\<lparr>ac_caller_handle := Some 10\<rparr>"
  have p: "polite demo_resume_again" by (simp add: polite_def demo_resume_again_def)
  have "ao_ctx ?op = Some 1" "cw_heap demo_world 1 = Some (Async ?c)" "ac_caller_handle ?c = Some 10"
    "cw_done (demo_resume_again 10 w) 10 = cw_done w 10" "\<not> cw_done demo_world 10"
    "cw_resumed demo_world = []" for w
    by (simp_all add: demo_world_def demo_resume_again_def)
  then show ?thesis using timeout_resumes_twice [OF p, of ?op 1 demo_world ?c 10 True] by simp
qed

section \<open>Shutting adapters down\<close>

text \<open>C38: Only the first adapter of a process is ever shut down: the once-flag of shutdown is shared by
  all of them, so after the first call, on adapter i, any further calls and destructor calls on any
  adapters leave every other completion queue open and its poller without a shutdown event.\<close>

theorem only_first_adapter_shuts_down:
  assumes "\<not> ap_shutdown_flag p" and "\<not> ca_cq_shutdown (ap_adapters p j)"
  shows "ca_cq_shutdown (ap_adapters (fold CoroAdapter_shutdown (i # is) p) j) \<longleftrightarrow> j = i"
proof -
  have "fold CoroAdapter_shutdown is q = q" if "ap_shutdown_flag q" for q
    using that by (induction "is") (simp_all add: CoroAdapter_shutdown_def)
  with assms show ?thesis by (simp add: CoroAdapter_shutdown_def)
qed

theorem only_first_adapter_shuts_down_witness:
  "\<not> ca_cq_shutdown (ap_adapters (fold CoroAdapter_shutdown [0, 1]
       \<lparr>ap_adapters = (\<lambda>_. CoroAdapter_new), ap_shutdown_flag = False\<rparr>) 1)"
  using only_first_adapter_shuts_down [of "\<lparr>ap_adapters = (\<lambda>_. CoroAdapter_new), ap_shutdown_flag = False\<rparr>" 1 0 "[1]"]
  by (simp add: CoroAdapter_new_def)

end
