(* ===== verification/Adapter_System.thy ===== *)
theory Adapter_System
  imports Coro_Adapter
begin

text \<open>
  The coroutine adapter of \<^verbatim>\<open>src/core/coro/coro_adapter.cpp\<close> as a concurrent system: client threads
  start operations, gRPC completes them, the poller thread takes the events from the completion
  queue, and the owner shuts the queue down and asks the poller to stop. The queue behaves as gRPC
  documents it: every operation that was started yields its tag exactly once, and \<^verbatim>\<open>AsyncNext\<close>
  reports the shutdown only when the queue was shut down and has no operation left. The system is that
  of the one adapter of a process whose queue the once-flag of \<^verbatim>\<open>shutdown\<close> lets shut down. A resumed
  coroutine that starts its next operation does so in a step of its own.
\<close>

section \<open>State and steps\<close>

text \<open>Where the poller thread is: at the loop condition, at \<^verbatim>\<open>AsyncNext\<close>, in
  \<^verbatim>\<open>drain_remaining_tags\<close>, left the loop, or stopped by a use of freed memory.\<close>

datatype poller_pc = PL_Test | PL_Next | PL_Drain | PL_Exited | PL_Crashed

text \<open>
  Operations in flight, events waiting in the queue, and two histories with the type of each
  context: everything that was started and everything the poller has processed.
\<close>

record adapter_sys =
  as_world :: coro_world
  as_inflight :: "addr list"
  as_ready :: "(addr \<times> bool) list"
  as_shut :: bool
  as_stop :: bool
  as_pc :: poller_pc
  as_started :: "(addr \<times> ContextType) list"
  as_processed :: "(addr \<times> ContextType) list"

definition adapter_init :: "(handle \<Rightarrow> bool) \<Rightarrow> adapter_sys" where
  "adapter_init dn =
     \<lparr>as_world = \<lparr>cw_heap = Map.empty, cw_freed = [], cw_done = dn, cw_resumed = []\<rparr>,
      as_inflight = [], as_ready = [], as_shut = False, as_stop = False, as_pc = PL_Test,
      as_started = [], as_processed = []\<rparr>"

definition outstanding :: "adapter_sys \<Rightarrow> addr list" where
  "outstanding s = as_inflight s @ map fst (as_ready s)"

abbreviation type_at :: "coro_world \<Rightarrow> addr \<Rightarrow> ContextType" where
  "type_at w a \<equiv> context_type (the (cw_heap w a))"

definition typed :: "coro_world \<Rightarrow> addr list \<Rightarrow> (addr \<times> ContextType) list" where
  "typed w as = map (\<lambda>a. (a, type_at w a)) as"

datatype adapter_event =
    EvOpStart addr ctx_cell
  | EvOpComplete addr bool
  | EvCqShutdown
  | EvStopRequest
  | EvLoopTest
  | EvAsyncNext
  | EvDrainNext

text \<open>Starting an operation: a context that was just allocated, whose coroutine waits for nothing
  else. gRPC does not allow it after the shutdown of the queue.\<close>

definition startable :: "adapter_sys \<Rightarrow> addr \<Rightarrow> ctx_cell \<Rightarrow> bool" where
  "startable s a c \<longleftrightarrow>
     \<not> as_shut s \<and> cw_heap (as_world s) a = None \<and> a \<notin> fst ` set (as_started s) \<and>
     (\<exists>k. handle_of c = Some k \<and>
        (\<forall>b \<in> set (outstanding s). handle_of (the (cw_heap (as_world s) b)) \<noteq> Some k))"

inductive adapter_step :: "adapter_sys \<Rightarrow> adapter_event \<Rightarrow> adapter_sys \<Rightarrow> bool" where
  OpStart:
    "startable s a c \<Longrightarrow>
     adapter_step s (EvOpStart a c)
       (s\<lparr>as_world := store a c (as_world s), as_inflight := as_inflight s @ [a],
         as_started := as_started s @ [(a, context_type c)]\<rparr>)"
| OpComplete:
    "a \<in> set (as_inflight s) \<Longrightarrow>
     adapter_step s (EvOpComplete a ok)
       (s\<lparr>as_inflight := remove1 a (as_inflight s), as_ready := as_ready s @ [(a, ok)]\<rparr>)"
| CqShutdown: "adapter_step s EvCqShutdown (s\<lparr>as_shut := True\<rparr>)"
| StopRequested: "adapter_step s EvStopRequest (s\<lparr>as_stop := True\<rparr>)"
| PollTest:
    "as_pc s = PL_Test \<Longrightarrow>
     adapter_step s EvLoopTest (s\<lparr>as_pc := (if as_stop s then PL_Exited else PL_Next)\<rparr>)"
| PollEvent:
    "as_pc s = PL_Next \<Longrightarrow> as_ready s = (a, ok) # es \<Longrightarrow> polite resume \<Longrightarrow>
     process_tag resume (Some a) ok (as_world s) = Inr w \<Longrightarrow>
     adapter_step s EvAsyncNext
       (s\<lparr>as_world := w, as_ready := es, as_pc := PL_Test,
         as_processed := as_processed s @ [(a, type_at (as_world s) a)]\<rparr>)"
| PollCrash:
    "as_pc s = PL_Next \<Longrightarrow> as_ready s = (a, ok) # es \<Longrightarrow> polite resume \<Longrightarrow>
     process_tag resume (Some a) ok (as_world s) = Inl e \<Longrightarrow>
     adapter_step s EvAsyncNext (s\<lparr>as_ready := es, as_pc := PL_Crashed\<rparr>)"
| PollTimeout:
    "as_pc s = PL_Next \<Longrightarrow> as_ready s = [] \<Longrightarrow> \<not> (as_shut s \<and> as_inflight s = []) \<Longrightarrow>
     adapter_step s EvAsyncNext (s\<lparr>as_pc := PL_Test\<rparr>)"
| PollShutdown:
    "as_pc s = PL_Next \<Longrightarrow> as_ready s = [] \<Longrightarrow> as_shut s \<Longrightarrow> as_inflight s = [] \<Longrightarrow>
     adapter_step s EvAsyncNext (s\<lparr>as_pc := PL_Drain\<rparr>)"
| DrainEvent:
    "as_pc s = PL_Drain \<Longrightarrow> as_ready s = (a, ok) # es \<Longrightarrow> polite resume \<Longrightarrow>
     process_tag resume (Some a) ok (as_world s) = Inr w \<Longrightarrow>
     adapter_step s EvDrainNext
       (s\<lparr>as_world := w, as_ready := es,
         as_processed := as_processed s @ [(a, type_at (as_world s) a)]\<rparr>)"
| DrainCrash:
    "as_pc s = PL_Drain \<Longrightarrow> as_ready s = (a, ok) # es \<Longrightarrow> polite resume \<Longrightarrow>
     process_tag resume (Some a) ok (as_world s) = Inl e \<Longrightarrow>
     adapter_step s EvDrainNext (s\<lparr>as_ready := es, as_pc := PL_Crashed\<rparr>)"
| DrainEnd:
    "as_pc s = PL_Drain \<Longrightarrow> as_ready s = [] \<Longrightarrow>
     adapter_step s EvDrainNext (s\<lparr>as_pc := PL_Exited\<rparr>)"

inductive_simps adapter_step_simps [step_simps]:
  "adapter_step s (EvOpStart a c) s'"
  "adapter_step s (EvOpComplete a ok) s'"
  "adapter_step s EvCqShutdown s'"
  "adapter_step s EvStopRequest s'"
  "adapter_step s EvLoopTest s'"

inductive_cases adapter_nextE: "adapter_step s EvAsyncNext s'"
inductive_cases adapter_drainE: "adapter_step s EvDrainNext s'"

section \<open>The invariant\<close>

text \<open>
  Outstanding operations have live contexts of the recorded type, one per coroutine; started
  operations are outstanding or processed, each once; the poller has deleted exactly the unary
  contexts among the processed ones, and their cells are empty.
\<close>

definition adapter_inv :: "adapter_sys \<Rightarrow> bool" where
  "adapter_inv s \<longleftrightarrow>
     pending_ok (as_world s) (outstanding s) \<and>
     distinct (map fst (as_started s)) \<and>
     mset (as_started s) =
       mset (typed (as_world s) (outstanding s)) + mset (as_processed s) \<and>
     cw_freed (as_world s) = map fst (filter (\<lambda>p. snd p = ASYNC_UNARY) (as_processed s)) \<and>
     (\<forall>a \<in> set (cw_freed (as_world s)). cw_heap (as_world s) a = None) \<and>
     as_pc s \<noteq> PL_Crashed \<and>
     (as_pc s = PL_Drain \<longrightarrow> outstanding s = [] \<and> as_shut s) \<and>
     (as_pc s = PL_Exited \<longrightarrow> as_stop s \<or> outstanding s = [] \<and> as_shut s)"

lemma adapter_inv_init: "adapter_inv (adapter_init dn)"
  by (simp add: adapter_inv_def adapter_init_def outstanding_def pending_ok_def typed_def)

section \<open>Every step keeps the invariant\<close>

lemma pending_ok_perm:
  assumes "mset xs = mset ys"
  shows "pending_ok w xs \<longleftrightarrow> pending_ok w ys"
proof -
  have "distinct xs = distinct ys" "set xs = set ys"
    using assms by (auto dest: mset_eq_imp_distinct_iff mset_eq_setD)
  moreover have "mset (map f xs) = mset (map f ys)" for f :: "addr \<Rightarrow> handle option"
    using assms by simp
  then have "distinct (map f xs) = distinct (map f ys)" for f :: "addr \<Rightarrow> handle option"
    by (rule mset_eq_imp_distinct_iff)
  ultimately show ?thesis unfolding pending_ok_def by metis
qed

lemma typed_perm: "mset xs = mset ys \<Longrightarrow> mset (typed w xs) = mset (typed w ys)"
  by (simp add: typed_def)

lemma typed_cong: "(\<And>a. a \<in> set as \<Longrightarrow> cw_heap w a = cw_heap w' a) \<Longrightarrow> typed w as = typed w' as"
  by (simp add: typed_def)

lemma typed_Cons: "typed w (a # as) = (a, type_at w a) # typed w as"
  by (simp add: typed_def)

lemma fst_typed [simp]: "map fst (typed w as) = as"
  by (simp add: typed_def comp_def)

lemma inv_outstanding:
  assumes "adapter_inv s"
  shows "set (outstanding s) \<subseteq> fst ` set (as_started s)"
    and "fst ` set (as_processed s) \<subseteq> fst ` set (as_started s)"
    and "a \<in> set (outstanding s) \<Longrightarrow> a \<notin> fst ` set (as_processed s)"
proof -
  let ?all = "typed (as_world s) (outstanding s) @ as_processed s"
  have m: "mset (as_started s) = mset ?all" using assms by (simp add: adapter_inv_def)
  then have m': "mset (map fst (as_started s)) = mset (map fst ?all)" by (simp only: mset_map)
  have "distinct (map fst ?all)"
    using mset_eq_imp_distinct_iff [OF m'] assms by (simp add: adapter_inv_def)
  then have d: "distinct (outstanding s @ map fst (as_processed s))" by simp
  have st: "set (map fst (as_started s)) = set (outstanding s) \<union> set (map fst (as_processed s))"
    using mset_eq_setD [OF m'] by simp
  show "set (outstanding s) \<subseteq> fst ` set (as_started s)" "fst ` set (as_processed s) \<subseteq> fst ` set (as_started s)"
    using st by auto
  show "a \<in> set (outstanding s) \<Longrightarrow> a \<notin> fst ` set (as_processed s)" using d by auto
qed

lemma freed_processed: "adapter_inv s \<Longrightarrow> set (cw_freed (as_world s)) \<subseteq> fst ` set (as_processed s)"
  by (auto simp: adapter_inv_def)

lemma pending_ok_store:
  assumes "pending_ok w as" and "a \<notin> set as" and "handle_of c = Some k"
    and "\<forall>b \<in> set as. handle_of (the (cw_heap w b)) \<noteq> Some k"
  shows "pending_ok (store a c w) (a # as)"
proof -
  have same: "cw_heap (store a c w) b = cw_heap w b" if "b \<in> set as" for b
    using that assms(2) by (auto simp: store_def)
  then have "map (\<lambda>b. handle_of (the (cw_heap (store a c w) b))) as = map (\<lambda>b. handle_of (the (cw_heap w b))) as"
    by simp
  moreover have "cw_heap (store a c w) a = Some c" by (simp add: store_def)
  moreover have "Some k \<notin> set (map (\<lambda>b. handle_of (the (cw_heap w b))) as)" using assms(4) by auto
  moreover have "\<exists>d j. cw_heap (store a c w) b = Some d \<and> handle_of d = Some j" if "b \<in> set as" for b
    using assms(1) same [OF that] that by (simp add: pending_ok_def)
  ultimately show ?thesis
    using assms(1-3) unfolding pending_ok_def by (simp only: list.map distinct.simps list.set ball_simps) auto
qed

lemma OpStart_inv:
  assumes inv: "adapter_inv s" and "startable s a c"
  shows "adapter_inv (s\<lparr>as_world := store a c (as_world s), as_inflight := as_inflight s @ [a],
           as_started := as_started s @ [(a, context_type c)]\<rparr>)"
proof -
  obtain k where st: "\<not> as_shut s" "cw_heap (as_world s) a = None" "a \<notin> fst ` set (as_started s)"
      "handle_of c = Some k" "\<forall>b \<in> set (outstanding s). handle_of (the (cw_heap (as_world s) b)) \<noteq> Some k"
    using assms(2) by (auto simp: startable_def)
  have new: "a \<notin> set (outstanding s)" "a \<notin> set (cw_freed (as_world s))"
    using st(3) inv_outstanding(1,2) [OF inv] freed_processed [OF inv] by blast+
  let ?s = "s\<lparr>as_world := store a c (as_world s), as_inflight := as_inflight s @ [a],
           as_started := as_started s @ [(a, context_type c)]\<rparr>"
  have out: "mset (outstanding ?s) = mset (a # outstanding s)" by (simp add: outstanding_def)
  have "pending_ok (as_world ?s) (a # outstanding s)"
    using pending_ok_store [OF _ new(1) st(4,5)] inv by (simp add: adapter_inv_def)
  then have pend: "pending_ok (as_world ?s) (outstanding ?s)" by (simp only: pending_ok_perm [OF out])
  have "mset (typed (as_world ?s) (outstanding ?s)) =
      add_mset (a, context_type c) (mset (typed (as_world ?s) (outstanding s)))"
    using typed_perm [OF out, of "as_world ?s"] by (simp add: typed_Cons) (simp add: store_def)
  also have "typed (as_world ?s) (outstanding s) = typed (as_world s) (outstanding s)"
    using new(1) by (intro typed_cong) (auto simp: store_def)
  finally have types: "mset (as_started ?s) =
      mset (typed (as_world ?s) (outstanding ?s)) + mset (as_processed ?s)"
    using inv by (simp add: adapter_inv_def)
  have rest: "cw_freed (as_world ?s) = cw_freed (as_world s)" "as_processed ?s = as_processed s"
      "as_pc ?s = as_pc s" "as_shut ?s = as_shut s" "as_stop ?s = as_stop s"
      "\<And>b. b \<noteq> a \<Longrightarrow> cw_heap (as_world ?s) b = cw_heap (as_world s) b"
    by (simp_all add: store_def)
  have "as_pc s = PL_Exited \<longrightarrow> as_stop s" "as_pc s \<noteq> PL_Drain"
    using inv st(1) by (auto simp: adapter_inv_def)
  moreover have "\<forall>b \<in> set (cw_freed (as_world ?s)). cw_heap (as_world ?s) b = None"
    using rest(1,6) new(2) inv by (metis adapter_inv_def)
  moreover have "distinct (map fst (as_started ?s))" using inv st(3) by (simp add: adapter_inv_def)
  ultimately show ?thesis
    using pend types rest inv unfolding adapter_inv_def by simp
qed

lemma OpComplete_inv:
  assumes "adapter_inv s" and "a \<in> set (as_inflight s)"
  shows "adapter_inv (s\<lparr>as_inflight := remove1 a (as_inflight s), as_ready := as_ready s @ [(a, ok)]\<rparr>)"
proof -
  let ?s = "s\<lparr>as_inflight := remove1 a (as_inflight s), as_ready := as_ready s @ [(a, ok)]\<rparr>"
  have out: "mset (outstanding ?s) = mset (outstanding s)"
    using assms(2) by (simp add: outstanding_def)
  have "outstanding s \<noteq> []" "outstanding ?s \<noteq> []" using assms(2) by (auto simp: outstanding_def)
  with assms(1) show ?thesis
    using typed_perm [OF out, of "as_world s"] pending_ok_perm [OF out, of "as_world s"]
    unfolding adapter_inv_def by simp
qed

lemma taken_outstanding:
  assumes "as_ready s = (a, ok) # es"
  shows "mset (outstanding s) = mset (a # outstanding (s\<lparr>as_ready := es\<rparr>))"
  using assms by (simp add: outstanding_def)

text \<open>Processing the first event of the queue: it never fails, and it keeps the invariant.\<close>

lemma process_event_inv:
  assumes inv: "adapter_inv s" and ready: "as_ready s = (a, ok) # es" and "polite resume"
  shows "\<exists>w. process_tag resume (Some a) ok (as_world s) = Inr w \<and>
           (pc \<in> {PL_Test, PL_Next} \<longrightarrow>
              adapter_inv (s\<lparr>as_world := w, as_ready := es, as_pc := pc,
                as_processed := as_processed s @ [(a, type_at (as_world s) a)]\<rparr>))"
proof -
  let ?as = "outstanding (s\<lparr>as_ready := es\<rparr>)"
  note out = taken_outstanding [OF ready]
  have "pending_ok (as_world s) (a # ?as)"
    using inv by (simp only: adapter_inv_def pending_ok_perm [OF out])
  from process_tag_pending [OF assms(3) this, of ok] obtain w c where
    w: "process_tag resume (Some a) ok (as_world s) = Inr w" "cw_heap (as_world s) a = Some c"
      "pending_ok w ?as" "\<forall>b \<in> set ?as. cw_heap w b = cw_heap (as_world s) b"
      "cw_freed w = cw_freed (as_world s) @ (if is_async (as_world s) a then [a] else [])"
      "is_async (as_world s) a \<longrightarrow> cw_heap w a = None"
      "\<forall>b \<in> set (cw_freed (as_world s)). b \<noteq> a \<longrightarrow> cw_heap (as_world s) b = None \<longrightarrow> cw_heap w b = None"
    by blast
  let ?s = "s\<lparr>as_world := w, as_ready := es, as_pc := pc,
    as_processed := as_processed s @ [(a, type_at (as_world s) a)]\<rparr>"
  have as: "outstanding ?s = ?as" by (simp add: outstanding_def)
  have async: "is_async (as_world s) a \<longleftrightarrow> type_at (as_world s) a = ASYNC_UNARY"
    using w(2) by (simp add: is_async_def)
  have "a \<in> set (outstanding s)" using mset_eq_setD [OF out] by simp
  then have "a \<notin> set (cw_freed (as_world s))"
    using inv_outstanding(3) [OF inv] freed_processed [OF inv] by blast
  moreover have "\<forall>b \<in> set (cw_freed (as_world s)). cw_heap (as_world s) b = None"
    using inv unfolding adapter_inv_def by blast
  ultimately have gone: "\<forall>b \<in> set (cw_freed w). cw_heap w b = None"
    using w(5-7) by (cases "is_async (as_world s) a") auto
  have freed: "cw_freed w = map fst (filter (\<lambda>p. snd p = ASYNC_UNARY) (as_processed ?s))"
    using w(5) inv by (simp add: adapter_inv_def async)
  have "typed w ?as = typed (as_world s) ?as" using w(4) by (intro typed_cong) simp
  then have types: "mset (as_started s) = mset (typed w ?as) + mset (as_processed ?s)"
    using inv typed_perm [OF out, of "as_world s"] by (simp add: adapter_inv_def typed_Cons)
  have "adapter_inv ?s" if "pc \<in> {PL_Test, PL_Next}"
    using that inv w(3) gone freed types unfolding adapter_inv_def as by auto
  with w(1) show ?thesis by blast
qed

lemma adapter_inv_step:
  assumes "adapter_inv s" and "adapter_step s e s'"
  shows "adapter_inv s'"
  using assms(2)
proof (cases rule: adapter_step.cases)
  case (PollEvent a ok es resume w)
  with assms(1) process_event_inv [OF assms(1), of a ok es resume PL_Test] show ?thesis by auto
next
  case (PollCrash a ok es resume e)
  with process_event_inv [OF assms(1), of a ok es resume PL_Test] show ?thesis by auto
next
  case (DrainEvent a ok es resume w)
  with assms(1) show ?thesis by (simp add: adapter_inv_def outstanding_def)
next
  case (DrainCrash a ok es resume e)
  with assms(1) show ?thesis by (simp add: adapter_inv_def outstanding_def)
next
  case OpStart
  with assms(1) show ?thesis by (simp only: OpStart_inv)
next
  case OpComplete
  with assms(1) show ?thesis by (simp only: OpComplete_inv)
qed (use assms(1) in \<open>auto simp: adapter_inv_def outstanding_def\<close>)

interpretation adapter: transition_invariant "\<lambda>s. \<exists>dn. s = adapter_init dn" adapter_step adapter_inv
  by unfold_locales (auto intro: adapter_inv_init adapter_inv_step)

section \<open>What every run keeps\<close>

abbreviation adapter_reachable :: "adapter_sys \<Rightarrow> bool" where
  "adapter_reachable \<equiv> reach (\<lambda>s. \<exists>dn. s = adapter_init dn) adapter_step"

lemma unary_once: "adapter_inv s \<Longrightarrow> distinct (cw_freed (as_world s))"
proof -
  assume inv: "adapter_inv s"
  let ?all = "typed (as_world s) (outstanding s) @ as_processed s"
  have "mset (as_started s) = mset ?all" using inv by (simp add: adapter_inv_def)
  then have "mset (map fst (as_started s)) = mset (map fst ?all)" by (simp only: mset_map)
  then have "distinct (map fst ?all)"
    using mset_eq_imp_distinct_iff inv by (metis adapter_inv_def)
  then have "distinct (map fst (as_processed s))" by simp
  then have "distinct (map fst (filter (\<lambda>p. snd p = ASYNC_UNARY) (as_processed s)))"
    by (rule distinct_filter_keys)
  then show ?thesis using inv by (simp add: adapter_inv_def)
qed

lemma processed_started: "adapter_inv s \<Longrightarrow> set (as_processed s) \<subseteq> set (as_started s)"
  by (metis adapter_inv_def mset_subset_eq_add_right set_mset_mono set_mset_mset)

lemma stream_not_freed:
  assumes "adapter_inv s" and "(a, STREAM_OP) \<in> set (as_started s)"
  shows "a \<notin> set (cw_freed (as_world s))"
proof
  assume "a \<in> set (cw_freed (as_world s))"
  then have "(a, ASYNC_UNARY) \<in> set (as_started s)"
    using assms(1) processed_started [OF assms(1)] by (auto simp: adapter_inv_def)
  moreover have "distinct (map fst (as_started s))" using assms(1) by (simp add: adapter_inv_def)
  ultimately show False using assms(2) by (metis ContextType.distinct(1) eq_key_imp_eq_value)
qed

text \<open>C7: Memory safety of the coroutine adapter under every interleaving of clients, gRPC, the poller
  and the owner. In every reachable state the poller has met no freed context; the context of
  every operation that is still outstanding is allocated; the contexts deleted so far are
  distinct, were unary operations and have no allocated cell; and no stream context was ever deleted.\<close>

theorem adapter_memory_safe:
  assumes "adapter_reachable s"
  shows "as_pc s \<noteq> PL_Crashed \<and>
         (\<forall>a \<in> set (outstanding s). cw_heap (as_world s) a \<noteq> None) \<and>
         distinct (cw_freed (as_world s)) \<and>
         (\<forall>a \<in> set (cw_freed (as_world s)).
            (a, ASYNC_UNARY) \<in> set (as_processed s) \<and> cw_heap (as_world s) a = None) \<and>
         (\<forall>a. (a, STREAM_OP) \<in> set (as_started s) \<longrightarrow> a \<notin> set (cw_freed (as_world s)))"
proof -
  have inv: "adapter_inv s" using assms by (rule adapter.reach_inv)
  then have "\<forall>a \<in> set (outstanding s). cw_heap (as_world s) a \<noteq> None"
    by (auto simp: adapter_inv_def pending_ok_def)
  moreover have "\<forall>a \<in> set (cw_freed (as_world s)).
      (a, ASYNC_UNARY) \<in> set (as_processed s) \<and> cw_heap (as_world s) a = None"
    using inv by (auto simp: adapter_inv_def)
  moreover have "as_pc s \<noteq> PL_Crashed" using inv by (simp add: adapter_inv_def)
  ultimately show ?thesis using unary_once [OF inv] stream_not_freed [OF inv] by blast
qed

section \<open>Shutdown without a stop request drains the queue\<close>

fun poller_event :: "adapter_event \<Rightarrow> bool" where
  "poller_event EvLoopTest = True"
| "poller_event EvAsyncNext = True"
| "poller_event EvDrainNext = True"
| "poller_event _ = False"

text \<open>How many steps the poller still takes once the queue is shut down and every operation is
  complete: two per waiting event, and the last three.\<close>

definition drain_rank :: "adapter_sys \<Rightarrow> nat" where
  "drain_rank s =
     (case as_pc s of
        PL_Test \<Rightarrow> 2 * length (as_ready s) + 3
      | PL_Next \<Rightarrow> 2 * length (as_ready s) + 2
      | PL_Drain \<Rightarrow> 1
      | _ \<Rightarrow> 0)"

definition winding_down :: "adapter_sys \<Rightarrow> bool" where
  "winding_down s \<longleftrightarrow> as_shut s \<and> \<not> as_stop s \<and> as_inflight s = []"

lemma winding_down_step:
  assumes "adapter_inv s" and "winding_down s" and "adapter_step s e s'" and "poller_event e"
  shows "winding_down s' \<and> as_started s' = as_started s \<and> Suc (drain_rank s') = drain_rank s"
proof -
  have "as_pc s' \<noteq> PL_Crashed" "as_pc s = PL_Drain \<longrightarrow> as_ready s = []"
    using adapter_inv_step [OF assms(1,3)] assms(1) by (auto simp: adapter_inv_def outstanding_def)
  with assms(3,2,4) show ?thesis
    by (cases rule: adapter_step.cases) (auto simp: winding_down_def drain_rank_def)
qed

lemma winding_down_progress:
  assumes "adapter_inv s" and "winding_down s" and "as_pc s \<noteq> PL_Exited"
  shows "\<exists>e s'. poller_event e \<and> adapter_step s e s'"
proof (cases "as_pc s")
  case PL_Test
  then show ?thesis using PollTest poller_event.simps(1) by blast
next
  case PL_Next
  show ?thesis
  proof (cases "as_ready s")
    case Nil
    with PL_Next assms(2) show ?thesis
      using PollShutdown poller_event.simps(2) by (metis winding_down_def)
  next
    case (Cons ev es)
    obtain a ok where ready: "as_ready s = (a, ok) # es" using Cons by (cases ev) simp
    obtain w where "process_tag demo_resume (Some a) ok (as_world s) = Inr w"
      using process_event_inv [OF assms(1) ready demo_resume_polite] by blast
    from PollEvent [OF PL_Next ready demo_resume_polite this] show ?thesis
      using poller_event.simps(2) by blast
  qed
next
  case PL_Drain
  with assms(1) show ?thesis
    using DrainEnd poller_event.simps(3) by (metis adapter_inv_def append_is_Nil_conv map_is_Nil_conv outstanding_def)
qed (use assms in \<open>auto simp: adapter_inv_def\<close>)

lemma winding_down_run:
  assumes "steps adapter_step s es s'" and "adapter_inv s" and "winding_down s" and "list_all poller_event es"
  shows "winding_down s' \<and> as_started s' = as_started s \<and> drain_rank s' + length es = drain_rank s"
  using assms
proof (induction rule: steps.induct)
  case (steps_Nil s)
  then show ?case by simp
next
  case (steps_Cons s e s' es s'')
  then have "winding_down s' \<and> as_started s' = as_started s \<and> Suc (drain_rank s') = drain_rank s"
    using winding_down_step by simp
  moreover have "adapter_inv s'" using steps_Cons.prems(1) steps_Cons.hyps(1) by (rule adapter_inv_step)
  ultimately show ?case using steps_Cons.IH steps_Cons.prems(3) by simp
qed

lemma exited_freed:
  assumes "adapter_inv s" and "as_pc s = PL_Exited" and "\<not> as_stop s"
  shows "outstanding s = []"
    and "mset (cw_freed (as_world s)) = mset (map fst (filter (\<lambda>p. snd p = ASYNC_UNARY) (as_started s)))"
proof -
  show out: "outstanding s = []" using assms by (simp add: adapter_inv_def)
  then have "mset (as_started s) = mset (as_processed s)" using assms(1) by (simp add: adapter_inv_def typed_def)
  then show "mset (cw_freed (as_world s)) = mset (map fst (filter (\<lambda>p. snd p = ASYNC_UNARY) (as_started s)))"
    using assms(1) by (simp add: adapter_inv_def)
qed

lemma not_exited_rank: "adapter_inv s \<Longrightarrow> as_pc s = PL_Exited \<longleftrightarrow> drain_rank s = 0"
  by (cases "as_pc s") (simp_all add: drain_rank_def adapter_inv_def)

text \<open>C13: Shutting the completion queue down drains it. Once the queue is shut down, gRPC has completed
  every operation in flight and nobody asks the poller to stop, the poller is never stuck before it has left its
  loop, leaves it after exactly two steps per waiting event and at most three more, and then nothing is
  outstanding and the deleted contexts are those of all unary operations ever started, each once.\<close>

theorem adapter_shutdown_drains:
  assumes "adapter_reachable s" and "as_shut s" and "\<not> as_stop s" and "as_inflight s = []"
    and "list_all poller_event es" and "steps adapter_step s es s'"
  shows "length es \<le> 2 * length (as_ready s) + 3 \<and>
         (as_pc s' \<noteq> PL_Exited \<longrightarrow> (\<exists>e s''. poller_event e \<and> adapter_step s' e s'')) \<and>
         (length es = drain_rank s \<longleftrightarrow> as_pc s' = PL_Exited) \<and>
         (as_pc s' = PL_Exited \<longrightarrow> outstanding s' = [] \<and>
            mset (cw_freed (as_world s')) = mset (map fst (filter (\<lambda>p. snd p = ASYNC_UNARY) (as_started s))))"
proof -
  have inv: "adapter_inv s" using assms(1) by (rule adapter.reach_inv)
  then have inv': "adapter_inv s'" using assms(6) by (blast intro: adapter.steps_inv)
  have w: "winding_down s" using assms(2-4) by (simp add: winding_down_def)
  have r: "winding_down s'" "as_started s' = as_started s" "drain_rank s' + length es = drain_rank s"
    using winding_down_run [OF assms(6) inv w assms(5)] by simp_all
  have "drain_rank s \<le> 2 * length (as_ready s) + 3" by (simp add: drain_rank_def split: poller_pc.split)
  then have "length es \<le> 2 * length (as_ready s) + 3" using r(3) by simp
  moreover have "length es = drain_rank s \<longleftrightarrow> as_pc s' = PL_Exited"
    using r(3) not_exited_rank [OF inv'] by auto
  moreover have "\<not> as_stop s'" using r(1) by (simp add: winding_down_def)
  ultimately show ?thesis
    using winding_down_progress [OF inv' r(1)] exited_freed [OF inv'] r(2) by auto
qed

section \<open>The destructor does not drain the queue\<close>

text \<open>
  \<^verbatim>\<open>~CoroAdapter\<close> shuts the queue down and then destroys the members in reverse order: the thread
  first, whose destructor requests the stop and joins. After that request the poller processes at
  most one more event.
\<close>

definition stopping :: "adapter_sys \<Rightarrow> adapter_sys \<Rightarrow> bool" where
  "stopping s0 s \<longleftrightarrow>
     as_stop s \<and> as_shut s \<and> as_started s = as_started s0 \<and>
     (\<exists>ps. as_processed s = as_processed s0 @ ps \<and> length ps \<le> (if as_pc s = PL_Next then 0 else 1))"

lemma poller_stopping_step:
  assumes "adapter_inv s" and "stopping s0 s" and "adapter_step s e s'"
  shows "stopping s0 s'"
proof -
  have "as_pc s = PL_Drain \<longrightarrow> as_ready s = []"
    using assms(1) by (auto simp: adapter_inv_def outstanding_def)
  with assms(3,2) show ?thesis
    by (cases rule: adapter_step.cases) (auto simp: stopping_def startable_def)
qed

lemma started_count: "adapter_inv s \<Longrightarrow> length (as_started s) = length (outstanding s) + length (as_processed s)"
proof -
  assume "adapter_inv s"
  then have "size (mset (as_started s)) = size (mset (typed (as_world s) (outstanding s)) + mset (as_processed s))"
    by (simp only: adapter_inv_def)
  then show ?thesis by (simp add: typed_def)
qed

text \<open>C36: Destroying an adapter leaks. The destructor shuts the queue down and then stops and joins the
  poller thread; from the stop request on, whatever the interleaving, the poller handles at most one more
  event, so all but one of the operations that were outstanding keep their allocated, never resumed
  contexts when the thread has exited, although the documentation of the context says that the
  drain deletes all pending tags.\<close>

theorem adapter_destructor_abandons:
  assumes "adapter_reachable s" and "as_shut s" and "steps adapter_step s (EvStopRequest # es) s'"
  shows "length (outstanding s) \<le> Suc (length (outstanding s')) \<and>
         length (cw_freed (as_world s')) \<le> Suc (length (cw_freed (as_world s))) \<and>
         (\<forall>a \<in> set (outstanding s'). cw_heap (as_world s') a \<noteq> None \<and> a \<notin> set (cw_freed (as_world s')))"
proof -
  have inv: "adapter_inv s" using assms(1) by (rule adapter.reach_inv)
  obtain s1 where s1: "adapter_step s EvStopRequest s1" "steps adapter_step s1 es s'" using assms(3) by blast
  then have inv1: "adapter_inv s1" using inv by (blast intro: adapter_inv_step)
  then have inv': "adapter_inv s'" using s1(2) by (blast intro: adapter.steps_inv)
  have "stopping s s1" using s1(1) assms(2) by (auto simp: step_simps stopping_def)
  with s1(2) inv1 have st: "stopping s s'"
    by (rule adapter.steps_stable) (rule poller_stopping_step)
  then obtain ps where ps: "as_started s' = as_started s" "as_processed s' = as_processed s @ ps" "length ps \<le> 1"
    by (auto simp: stopping_def split: if_splits)
  then have "length (outstanding s) \<le> Suc (length (outstanding s'))"
    using started_count [OF inv] started_count [OF inv'] by simp
  moreover have "length (filter (\<lambda>p. snd p = ASYNC_UNARY) ps) \<le> 1"
    using ps(3) by (rule le_trans [OF length_filter_le])
  then have "length (cw_freed (as_world s')) \<le> Suc (length (cw_freed (as_world s)))"
    using inv inv' ps(2) by (simp add: adapter_inv_def)
  moreover have "\<forall>a \<in> set (outstanding s'). cw_heap (as_world s') a \<noteq> None"
    using inv' by (auto simp: adapter_inv_def pending_ok_def)
  moreover have "\<forall>a \<in> set (outstanding s'). a \<notin> set (cw_freed (as_world s'))"
    using inv_outstanding(3) [OF inv'] freed_processed [OF inv'] by blast
  ultimately show ?thesis by blast
qed

section \<open>Concrete runs\<close>

text \<open>Two unary calls are started, the first completes, and the queue is shut down.\<close>

definition demo_cell :: "handle \<Rightarrow> ctx_cell" where
  "demo_cell h = Async (AsyncContext_new\<lparr>ac_caller_handle := Some h\<rparr>)"

definition demo_adapter :: adapter_sys where
  "demo_adapter =
     \<lparr>as_world = \<lparr>cw_heap = [1 \<mapsto> demo_cell 10, 2 \<mapsto> demo_cell 20], cw_freed = [], cw_done = (\<lambda>_. False), cw_resumed = []\<rparr>,
      as_inflight = [2], as_ready = [(1, True)], as_shut = True, as_stop = False, as_pc = PL_Test,
      as_started = [(1, ASYNC_UNARY), (2, ASYNC_UNARY)], as_processed = []\<rparr>"

lemma demo_adapter_steps:
  "steps adapter_step (adapter_init (\<lambda>_. False))
     [EvOpStart 1 (demo_cell 10), EvOpStart 2 (demo_cell 20), EvOpComplete 1 True, EvCqShutdown] demo_adapter"
proof -
  let ?s0 = "adapter_init (\<lambda>_. False)"
  let ?s1 = "?s0\<lparr>as_world := store 1 (demo_cell 10) (as_world ?s0), as_inflight := [1], as_started := [(1, ASYNC_UNARY)]\<rparr>"
  let ?s2 = "?s1\<lparr>as_world := store 2 (demo_cell 20) (as_world ?s1), as_inflight := [1, 2],
    as_started := [(1, ASYNC_UNARY), (2, ASYNC_UNARY)]\<rparr>"
  let ?s3 = "?s2\<lparr>as_inflight := [2], as_ready := [(1, True)]\<rparr>"
  have a: "adapter_step ?s0 (EvOpStart 1 (demo_cell 10)) ?s1"
    by (simp add: step_simps startable_def adapter_init_def demo_cell_def outstanding_def)
  have b: "adapter_step ?s1 (EvOpStart 2 (demo_cell 20)) ?s2"
    by (simp add: step_simps startable_def adapter_init_def demo_cell_def outstanding_def store_def)
  have c: "adapter_step ?s2 (EvOpComplete 1 True) ?s3"
    by (simp add: step_simps adapter_init_def)
  have d: "adapter_step ?s3 EvCqShutdown demo_adapter"
    by (simp add: step_simps adapter_init_def demo_adapter_def store_def)
  show ?thesis
    by (rule steps_Cons, rule a, rule steps_Cons, rule b, rule steps_Cons, rule c, rule steps_Cons, rule d, rule steps_Nil)
qed

lemma demo_adapter_reachable: "adapter_reachable demo_adapter"
  by (rule reach_steps [OF demo_adapter_steps], rule reach_init) blast

lemma winding_down_exits:
  assumes "adapter_inv s" and "winding_down s"
  shows "\<exists>es s'. list_all poller_event es \<and> length es = drain_rank s \<and> steps adapter_step s es s' \<and> as_pc s' = PL_Exited"
  using assms
proof (induction "drain_rank s" arbitrary: s)
  case 0
  then have "as_pc s = PL_Exited" by (simp add: not_exited_rank)
  with 0 show ?case by (intro exI [of _ "[]"]) (auto intro: steps_Nil)
next
  case (Suc n)
  then have "as_pc s \<noteq> PL_Exited" by (simp add: not_exited_rank)
  from winding_down_progress [OF Suc.prems this] obtain e s1 where e: "poller_event e" "adapter_step s e s1" by blast
  have s1: "winding_down s1" "Suc (drain_rank s1) = drain_rank s" "adapter_inv s1"
    using winding_down_step [OF Suc.prems e(2,1)] adapter_inv_step [OF Suc.prems(1) e(2)] by simp_all
  with Suc.hyps obtain es s' where "list_all poller_event es" "length es = n" "steps adapter_step s1 es s'" "as_pc s' = PL_Exited"
    by (metis Suc_inject)
  with e Suc.hyps(2) show ?case
    by (intro exI [of _ "e # es"] exI [of _ s']) (auto intro: steps_Cons)
qed

text \<open>The second call completes too; the queue is shut down.\<close>

definition demo_complete :: adapter_sys where
  "demo_complete = demo_adapter\<lparr>as_inflight := [], as_ready := [(1, True), (2, False)]\<rparr>"

lemma demo_complete_reachable: "adapter_reachable demo_complete"
proof (rule reach_step [OF demo_adapter_reachable])
  show "adapter_step demo_adapter (EvOpComplete 2 False) demo_complete"
    by (simp add: step_simps demo_adapter_def demo_complete_def)
qed

theorem adapter_memory_safe_witness:
  "adapter_reachable demo_adapter \<and> outstanding demo_adapter = [2, 1] \<and> cw_heap (as_world demo_adapter) 1 \<noteq> None"
proof -
  have "outstanding demo_adapter = [2, 1]" by (simp add: outstanding_def demo_adapter_def)
  with adapter_memory_safe [OF demo_adapter_reachable] demo_adapter_reachable show ?thesis by simp
qed

theorem adapter_shutdown_drains_witness:
  "\<exists>es s'. length es = 7 \<and> list_all poller_event es \<and> steps adapter_step demo_complete es s' \<and>
     outstanding s' = [] \<and> mset (cw_freed (as_world s')) = {#1, 2#}"
proof -
  have d: "as_shut demo_complete" "\<not> as_stop demo_complete" "as_inflight demo_complete = []" "drain_rank demo_complete = 7"
    "as_started demo_complete = [(1, ASYNC_UNARY), (2, ASYNC_UNARY)]"
    by (simp_all add: demo_complete_def demo_adapter_def drain_rank_def)
  moreover have "adapter_inv demo_complete" using demo_complete_reachable by (rule adapter.reach_inv)
  ultimately obtain es s' where es: "list_all poller_event es" "length es = 7"
      "steps adapter_step demo_complete es s'" "as_pc s' = PL_Exited"
    using winding_down_exits [of demo_complete] by (auto simp: winding_down_def)
  with adapter_shutdown_drains [OF demo_complete_reachable d(1-3) es(1,3)] d(5) show ?thesis by auto
qed

theorem adapter_destructor_abandons_witness:
  "\<exists>s'. steps adapter_step demo_adapter [EvStopRequest, EvLoopTest] s' \<and> as_pc s' = PL_Exited \<and>
     outstanding s' = [2, 1] \<and> cw_heap (as_world s') 1 \<noteq> None \<and> cw_heap (as_world s') 2 \<noteq> None"
proof -
  let ?s1 = "demo_adapter\<lparr>as_stop := True\<rparr>"
  let ?s2 = "?s1\<lparr>as_pc := PL_Exited\<rparr>"
  have a: "adapter_step demo_adapter EvStopRequest ?s1" and b: "adapter_step ?s1 EvLoopTest ?s2"
    and sh: "as_shut demo_adapter" and o: "outstanding ?s2 = [2, 1]"
    by (simp_all add: step_simps demo_adapter_def outstanding_def)
  have st: "steps adapter_step demo_adapter [EvStopRequest, EvLoopTest] ?s2"
    by (rule steps_Cons, rule a, rule steps_Cons, rule b, rule steps_Nil)
  from adapter_destructor_abandons [OF demo_adapter_reachable sh st]
  have "\<forall>a \<in> set (outstanding ?s2). cw_heap (as_world ?s2) a \<noteq> None" by simp
  then have "cw_heap (as_world ?s2) 1 \<noteq> None" "cw_heap (as_world ?s2) 2 \<noteq> None" unfolding o by simp_all
  with st o show ?thesis by (intro exI [of _ ?s2]) simp
qed

end
