(* ===== verification/Logger.thy ===== *)
theory Logger
  imports Drocm_Prelude
begin

text \<open>
  \<^verbatim>\<open>src/utils/logger.h\<close> and \<^verbatim>\<open>logger.cpp\<close>: the process-wide logger, its life cycle, the level
  filter of its two sinks and the location prefix the macros prepend. Formatting the arguments into
  the message and writing it out are spdlog's work: a message here is the formatted text, and the
  content of a sink is the list of messages it accepted.
\<close>

section \<open>Levels\<close>

datatype level = Trace | Debug | Info | Warn | Err | Critical

fun level_rank :: "level \<Rightarrow> nat" where
  "level_rank Trace = 0"
| "level_rank Debug = 1"
| "level_rank Info = 2"
| "level_rank Warn = 3"
| "level_rank Err = 4"
| "level_rank Critical = 5"

lemma level_rank_inj: "level_rank a = level_rank b \<longleftrightarrow> a = b"
  by (cases a; cases b) simp_all

instantiation level :: linorder
begin

definition less_eq_level :: "level \<Rightarrow> level \<Rightarrow> bool" where
  "less_eq_level a b \<longleftrightarrow> level_rank a \<le> level_rank b"

definition less_level :: "level \<Rightarrow> level \<Rightarrow> bool" where
  "less_level a b \<longleftrightarrow> level_rank a < level_rank b"

instance
  by standard (auto simp: less_eq_level_def less_level_def level_rank_inj)

end

section \<open>State\<close>

datatype sink_kind = ConsoleSink | DailyFileSink string nat nat

record sink =
  sk_kind :: sink_kind
  sk_pattern :: string
  sk_level :: level

record async_logger =
  al_name :: string
  al_sinks :: "sink list"
  al_level :: level
  al_queue_size :: nat
  al_thread_count :: nat

record LoggerState =
  lg_instance :: "async_logger option"
  lg_output :: "(sink_kind \<times> string) list"

datatype logger_error = NullLogger

section \<open>Operations\<close>

definition console_sink :: sink where
  "console_sink =
     \<lparr>sk_kind = ConsoleSink, sk_pattern = ''[%Y-%m-%d %H:%M:%S.%e] [%t] [%^%l%$] %v'', sk_level = Debug\<rparr>"

definition file_sink :: "string \<Rightarrow> sink" where
  "file_sink log_dir =
     \<lparr>sk_kind = DailyFileSink (log_dir @ ''/drocm.log'') 0 0,
      sk_pattern = ''[%Y-%m-%d %H:%M:%S.%e] [%t] [%l] %v'', sk_level = Trace\<rparr>"

text \<open>A logger hands a message that passes its own level to every sink whose level it passes.\<close>

definition log_message :: "async_logger \<Rightarrow> level \<Rightarrow> string \<Rightarrow> LoggerState \<Rightarrow> LoggerState" where
  "log_message l lvl msg s =
     (if al_level l \<le> lvl then
        s\<lparr>lg_output := lg_output s @
            map (\<lambda>k. (sk_kind k, msg)) (filter (\<lambda>k. sk_level k \<le> lvl) (al_sinks l))\<rparr>
      else s)"

text \<open>The initialisation message has one placeholder for its two arguments; the second is unused.\<close>

definition init_message :: "nat \<Rightarrow> string" where
  "init_message async_queue_size =
     ''Logger initialized (async mode, queue_size='' @ to_string (int async_queue_size) @
     '', sinks=[console, file])''"

definition Logger_init :: "string \<Rightarrow> nat \<Rightarrow> nat \<Rightarrow> LoggerState \<Rightarrow> bool \<times> LoggerState" where
  "Logger_init log_dir async_queue_size async_thread_count s =
     (if lg_instance s \<noteq> None then (True, s)
      else
        let l = \<lparr>al_name = ''drocm'', al_sinks = [console_sink, file_sink log_dir], al_level = Trace,
                 al_queue_size = async_queue_size, al_thread_count = async_thread_count\<rparr>;
            s1 = s\<lparr>lg_instance := Some l\<rparr>
        in (True, log_message l Info (init_message async_queue_size) s1))"

definition Logger_get :: "LoggerState \<Rightarrow> async_logger option" where
  "Logger_get s = lg_instance s"

definition Logger_shutdown :: "LoggerState \<Rightarrow> LoggerState" where
  "Logger_shutdown s = (if lg_instance s = None then s else s\<lparr>lg_instance := None\<rparr>)"

section \<open>The macros\<close>

text \<open>\<^verbatim>\<open>s.find_last_of(chars)\<close>: the last position that holds one of the characters.\<close>

definition find_last_of :: "string \<Rightarrow> string \<Rightarrow> nat option" where
  "find_last_of chars s =
     (let k = length (takeWhile (\<lambda>c. c \<notin> set chars) (rev s))
      in if k = length s then None else Some (length s - Suc k))"

definition path_separators :: string where
  "path_separators = [CHR ''/'', CHR 0x5C]"

text \<open>\<^verbatim>\<open>substr(find_last_of(...) != npos ? find_last_of(...) + 1 : 0)\<close>\<close>

definition file_name :: "string \<Rightarrow> string" where
  "file_name path =
     (case find_last_of path_separators path of
        Some i \<Rightarrow> drop (i + 1) path
      | None \<Rightarrow> drop 0 path)"

definition DROCM_LOG :: "level \<Rightarrow> string \<Rightarrow> nat \<Rightarrow> string \<Rightarrow> LoggerState \<Rightarrow> logger_error + LoggerState" where
  "DROCM_LOG lvl file line msg s =
     (case Logger_get s of
        None \<Rightarrow> Inl NullLogger
      | Some l \<Rightarrow>
          Inr (log_message l lvl (''['' @ file_name file @ '':'' @ to_string (int line) @ ''] '' @ msg) s))"

section \<open>Properties\<close>

lemma log_message_instance [simp]: "lg_instance (log_message l lvl msg s) = lg_instance s"
  by (simp add: log_message_def)

interpretation lg: service_lifecycle "\<lambda>_. True" "\<lambda>s. snd (Logger_init dir q n s)" Logger_shutdown
  "\<lambda>s. lg_instance s \<noteq> None" for dir q n
  by unfold_locales (auto simp: Logger_init_def Logger_shutdown_def Let_def)

text \<open>Logging works exactly between an initialisation and the next shutdown: after any sequence of
  the two, repeated calls included, a log macro succeeds if the last one was an initialisation and
  dereferences a null logger if it was a shutdown.\<close>

lemma logging_needs_init:
  "(\<exists>s'. DROCM_LOG lvl file line msg
      (fold (\<lambda>c. if c then (\<lambda>s. snd (Logger_init dir q n s)) else Logger_shutdown) (cs @ [c]) s) = Inr s') \<longleftrightarrow> c"
  using lg.running_last [where s = s and cs = cs and c = c and dir = dir and q = q and n = n]
  by (auto simp: DROCM_LOG_def Logger_get_def split: option.split)

lemma file_name_eq: "file_name path = rev (takeWhile (\<lambda>c. c \<notin> set path_separators) (rev path))"
proof -
  let ?t = "takeWhile (\<lambda>c. c \<notin> set path_separators) (rev path)"
  let ?d = "dropWhile (\<lambda>c. c \<notin> set path_separators) (rev path)"
  have "path = rev ?d @ rev ?t" by (metis rev_append rev_rev_ident takeWhile_dropWhile_id)
  moreover have "length path = length ?d + length ?t"
    by (metis add.commute length_append length_rev takeWhile_dropWhile_id)
  ultimately have "drop (length ?d) path = rev ?t" by (metis append_eq_conv_conj length_rev)
  with \<open>length path = length ?d + length ?t\<close> show ?thesis
    by (cases "length ?d") (auto simp: file_name_def find_last_of_def Let_def)
qed

text \<open>The location prefix of a log message is the file name without its directories: what the macros
  cut off a path is empty or ends in a slash or backslash, and what they keep has neither.\<close>

lemma file_name_is_basename:
  "\<exists>dir. path = dir @ file_name path \<and> (dir = [] \<or> last dir \<in> set path_separators) \<and>
     set (file_name path) \<inter> set path_separators = {}"
proof -
  let ?P = "\<lambda>c. c \<notin> set path_separators"
  have "path = rev (dropWhile ?P (rev path)) @ file_name path"
    unfolding file_name_eq by (metis rev_append rev_rev_ident takeWhile_dropWhile_id)
  moreover have "rev (dropWhile ?P (rev path)) = [] \<or> last (rev (dropWhile ?P (rev path))) \<in> set path_separators"
    using hd_dropWhile [of ?P "rev path"] by (auto simp: last_rev)
  moreover have "set (file_name path) \<inter> set path_separators = {}"
    by (auto simp: file_name_eq dest: set_takeWhileD)
  ultimately show ?thesis by blast
qed

text \<open>Everything reaches the file, everything but trace messages the console.\<close>

lemma DROCM_LOG_sinks:
  assumes "lg_instance s = None"
  shows "DROCM_LOG lvl file line msg (snd (Logger_init dir q n s)) =
     Inr (let s1 = snd (Logger_init dir q n s);
              m = ''['' @ file_name file @ '':'' @ to_string (int line) @ ''] '' @ msg
          in s1\<lparr>lg_output := lg_output s1 @ (if lvl = Trace then [] else [(ConsoleSink, m)]) @
                  [(DailyFileSink (dir @ ''/drocm.log'') 0 0, m)]\<rparr>)"
  using assms
  by (cases lvl) (simp_all add: DROCM_LOG_def Logger_get_def Logger_init_def log_message_def console_sink_def
      file_sink_def less_eq_level_def Let_def)

end
