(* ===== verification/Error_Codes.thy ===== *)
theory Error_Codes
  imports Drocm_Prelude
begin

text \<open>
  \<^verbatim>\<open>src/core/error_codes.h\<close> and \<^verbatim>\<open>src/core/version.*\<close>: the error enumeration with its
  underlying values and descriptions, the \<^verbatim>\<open>Result\<close> type, and the version constants. The
  enumeration has a fixed underlying type, so a value of it may be any \<^verbatim>\<open>int\<close>; the
  description function therefore switches on the underlying value and has a default.
\<close>

section \<open>The enumeration\<close>

datatype ErrorCode =
    EC_OK
  | EC_INVALID_ARGUMENT
  | EC_NODE_NOT_FOUND
  | EC_NODE_ALREADY_EXISTS
  | EC_SESSION_EXPIRED
  | EC_SERVICE_UNAVAILABLE
  | EC_RATE_LIMITED
  | EC_INTERNAL_ERROR
  | EC_TABLE_FULL
  | EC_SERIALIZATION_FAILED

fun error_code_value :: "ErrorCode \<Rightarrow> int" where
  "error_code_value EC_OK = 0"
| "error_code_value EC_INVALID_ARGUMENT = 1001"
| "error_code_value EC_NODE_NOT_FOUND = 1002"
| "error_code_value EC_NODE_ALREADY_EXISTS = 1003"
| "error_code_value EC_SESSION_EXPIRED = 1004"
| "error_code_value EC_SERVICE_UNAVAILABLE = 1005"
| "error_code_value EC_RATE_LIMITED = 1006"
| "error_code_value EC_INTERNAL_ERROR = 2001"
| "error_code_value EC_TABLE_FULL = 2002"
| "error_code_value EC_SERIALIZATION_FAILED = 2003"

definition error_code_to_string :: "int \<Rightarrow> string" where
  "error_code_to_string c =
     (if c = error_code_value EC_OK then ''OK''
      else if c = error_code_value EC_INVALID_ARGUMENT then ''Invalid argument''
      else if c = error_code_value EC_NODE_NOT_FOUND then ''Node not found''
      else if c = error_code_value EC_NODE_ALREADY_EXISTS then ''Node already registered''
      else if c = error_code_value EC_SESSION_EXPIRED then ''Session expired''
      else if c = error_code_value EC_SERVICE_UNAVAILABLE then ''Service unavailable''
      else if c = error_code_value EC_RATE_LIMITED then ''Rate limited''
      else if c = error_code_value EC_INTERNAL_ERROR then ''Internal error''
      else if c = error_code_value EC_TABLE_FULL then ''Node table full''
      else if c = error_code_value EC_SERIALIZATION_FAILED then ''Serialization failed''
      else ''Unknown error'')"

text \<open>A scoped enumeration is ordered by its underlying values.\<close>

instantiation ErrorCode :: linorder
begin

definition less_eq_ErrorCode :: "ErrorCode \<Rightarrow> ErrorCode \<Rightarrow> bool" where
  "less_eq_ErrorCode a b \<longleftrightarrow> error_code_value a \<le> error_code_value b"

definition less_ErrorCode :: "ErrorCode \<Rightarrow> ErrorCode \<Rightarrow> bool" where
  "less_ErrorCode a b \<longleftrightarrow> error_code_value a < error_code_value b"

lemma error_code_value_inj: "error_code_value a = error_code_value b \<Longrightarrow> a = b"
  by (cases a; cases b) simp_all

instance
  by standard (auto simp: less_eq_ErrorCode_def less_ErrorCode_def dest: error_code_value_inj)

end

section \<open>Result\<close>

record 'a Result =
  res_code :: ErrorCode
  res_value :: 'a
  res_message :: string

text \<open>\<^verbatim>\<open>T{}\<close> is an argument: the value-initialised payload.\<close>

definition Result_default :: "'a \<Rightarrow> 'a Result" where
  "Result_default t0 = \<lparr>res_code = EC_INTERNAL_ERROR, res_value = t0, res_message = ''''\<rparr>"

definition Result_ok :: "'a \<Rightarrow> string \<Rightarrow> 'a Result" where
  "Result_ok v msg = \<lparr>res_code = EC_OK, res_value = v, res_message = msg\<rparr>"

definition Result_error :: "'a \<Rightarrow> ErrorCode \<Rightarrow> string \<Rightarrow> 'a Result" where
  "Result_error t0 c msg = \<lparr>res_code = c, res_value = t0, res_message = msg\<rparr>"

definition Result_is_ok :: "'a Result \<Rightarrow> bool" where
  "Result_is_ok r \<longleftrightarrow> res_code r = EC_OK"

text \<open>The specialization for \<^verbatim>\<open>void\<close> is the instance at the unit type.\<close>

type_synonym Result_void = "unit Result"

section \<open>Version\<close>

definition version_major :: int where "version_major = 0"
definition version_minor :: int where "version_minor = 1"
definition version_patch :: int where "version_patch = 0"

definition VersionInfo_toString :: string where
  "VersionInfo_toString = ''D-RoCM v0.1.0''"

section \<open>Properties\<close>

text \<open>The description of an error code identifies it: two enumerators have the same description
  only if they are the same, the default description is given to exactly the integers that are no
  enumerator, and the client codes (1001 to 1006) sort below the server codes (2001 to 2003), with
  OK below all.\<close>

lemma error_codes_distinguished:
  "(error_code_to_string (error_code_value a) = error_code_to_string (error_code_value b) \<longleftrightarrow> a = b) \<and>
   (error_code_to_string c = ''Unknown error'' \<longleftrightarrow> c \<notin> range error_code_value) \<and>
   EC_OK \<le> a \<and> EC_RATE_LIMITED < EC_INTERNAL_ERROR"
proof -
  have range: "range error_code_value = {0, 1001, 1002, 1003, 1004, 1005, 1006, 2001, 2002, 2003}"
  proof -
    have "x \<in> {0, 1001, 1002, 1003, 1004, 1005, 1006, 2001, 2002, 2003}" if "x = error_code_value y" for x y
      using that by (cases y) simp_all
    moreover have "x \<in> range error_code_value"
      if "x \<in> {0, 1001, 1002, 1003, 1004, 1005, 1006, 2001, 2002, 2003}" for x
      using that by (auto simp: image_iff intro: error_code_value.simps [symmetric])
    ultimately show ?thesis by blast
  qed
  have "error_code_to_string c = ''Unknown error'' \<longleftrightarrow> c \<notin> range error_code_value"
    unfolding range by (simp add: error_code_to_string_def)
  moreover have "error_code_to_string (error_code_value a) = error_code_to_string (error_code_value b) \<longleftrightarrow> a = b"
    by (cases a; cases b) (simp_all add: error_code_to_string_def)
  moreover have "EC_OK \<le> a" by (cases a) (simp_all add: less_eq_ErrorCode_def)
  ultimately show ?thesis by (simp add: less_ErrorCode_def)
qed

text \<open>The version string is the program name, a v and the three version numbers joined by dots.\<close>

lemma version_string_matches_numbers:
  "VersionInfo_toString =
     ''D-RoCM v'' @ to_string version_major @ ''.'' @ to_string version_minor @ ''.'' @ to_string version_patch"
  by code_simp

end
