(* ===== verification/Transport_Manager.thy ===== *)
theory Transport_Manager
  imports Drocm_Prelude
begin

text \<open>
  \<^verbatim>\<open>src/core/transport/transport_manager.*\<close>: the configuration of the transport layer and its
  manager, whose \<^verbatim>\<open>Impl\<close> is still empty in the sources, so that starting and stopping only move
  the running flag.
\<close>

record TransportConfig =
  server_address :: string
  server_port :: u32
  connection_timeout_ms :: u32
  request_timeout_ms :: u32
  max_retries :: u32
  retry_backoff_base_ms :: u32
  keepalive_time_ms :: u32
  keepalive_timeout_ms :: u32

definition TransportConfig_default :: TransportConfig where
  "TransportConfig_default =
     \<lparr>server_address = ''0.0.0.0'', server_port = 50051, connection_timeout_ms = 5000,
      request_timeout_ms = 3000, max_retries = 3, retry_backoff_base_ms = 100,
      keepalive_time_ms = 10000, keepalive_timeout_ms = 5000\<rparr>"

record TransportManager =
  tm_config :: TransportConfig
  tm_is_running :: bool

definition TransportManager_new :: "TransportConfig \<Rightarrow> TransportManager" where
  "TransportManager_new cfg = \<lparr>tm_config = cfg, tm_is_running = False\<rparr>"

definition TransportManager_start :: "TransportManager \<Rightarrow> bool \<times> TransportManager" where
  "TransportManager_start t = (True, t\<lparr>tm_is_running := True\<rparr>)"

definition TransportManager_stop :: "TransportManager \<Rightarrow> TransportManager" where
  "TransportManager_stop t = t\<lparr>tm_is_running := False\<rparr>"

definition TransportManager_is_running :: "TransportManager \<Rightarrow> bool" where
  "TransportManager_is_running t = tm_is_running t"

definition TransportManager_config :: "TransportManager \<Rightarrow> TransportConfig" where
  "TransportManager_config t = tm_config t"

interpretation tm: service_lifecycle "\<lambda>t. tm_config t = cfg" "\<lambda>t. snd (TransportManager_start t)"
  TransportManager_stop TransportManager_is_running for cfg
  by unfold_locales
    (simp_all add: TransportManager_start_def TransportManager_stop_def TransportManager_is_running_def)

text \<open>After any sequence of start and stop calls the transport manager reports running exactly if
  the last call was a start, and its configuration is the one it was constructed with.\<close>

lemma transport_manager_follows_last_command:
  "TransportManager_is_running
     (fold (\<lambda>c. if c then (\<lambda>t. snd (TransportManager_start t)) else TransportManager_stop) (cs @ [c])
        (TransportManager_new cfg)) = c \<and>
   TransportManager_config
     (fold (\<lambda>c. if c then (\<lambda>t. snd (TransportManager_start t)) else TransportManager_stop) (cs @ [c])
        (TransportManager_new cfg)) = cfg"
proof -
  have "tm_config (TransportManager_new cfg) = cfg" by (simp add: TransportManager_new_def)
  from tm.running_last [OF this, of cs c] tm.exec_all_ok [OF this, of "cs @ [c]"] show ?thesis
    by (simp only: TransportManager_config_def simp_thms)
qed

end
