(* ===== verification/Programs.thy ===== *)
theory Programs
  imports Registry_Server Registry_Clients Lidar_Process Adapter_System Logger Error_Codes Transport_Manager
begin

text \<open>
  \<^verbatim>\<open>src/main.cpp\<close>, which starts and stops the logger and a coroutine adapter. The other two main
  programs are in \<open>Registry_Server\<close> and \<open>Lidar_Process\<close>.
\<close>

section \<open>main.cpp\<close>

record drocm_process =
  dp_logger :: LoggerState
  dp_adapters :: adapter_process

text \<open>Statements in sequence; an error ends the program.\<close>

definition bind_step :: "'e + 'a \<Rightarrow> ('a \<Rightarrow> 'e + 'b) \<Rightarrow> 'e + 'b" where
  "bind_step x f = (case x of Inl e \<Rightarrow> Inl e | Inr a \<Rightarrow> f a)"

text \<open>Log calls with level, file, line and message, one after the other.\<close>

fun log_all :: "(level \<times> string \<times> nat \<times> string) list \<Rightarrow> drocm_process \<Rightarrow> logger_error + drocm_process" where
  "log_all [] p = Inr p"
| "log_all ((lvl, file, line, msg) # ms) p =
     (case DROCM_LOG lvl file line msg (dp_logger p) of
        Inl e \<Rightarrow> Inl e
      | Inr s \<Rightarrow> log_all ms (p\<lparr>dp_logger := s\<rparr>))"

definition main_cpp :: string where
  "main_cpp = ''src/main.cpp''"

definition coro_cpp :: string where
  "coro_cpp = ''src/core/coro/coro_adapter.cpp''"

text \<open>\<^verbatim>\<open>std::make_unique<CoroAdapter>()\<close> as adapter number \<open>i\<close>. The messages of the poller thread that
  are not ordered with main are left out.\<close>

definition make_adapter :: "nat \<Rightarrow> drocm_process \<Rightarrow> logger_error + drocm_process" where
  "make_adapter i p =
     log_all [(Info, coro_cpp, 13, ''CoroAdapter initialized, poller thread started'')]
       (p\<lparr>dp_adapters := (dp_adapters p)\<lparr>ap_adapters := (ap_adapters (dp_adapters p))(i := CoroAdapter_new)\<rparr>\<rparr>)"

definition shutdown_adapter :: "nat \<Rightarrow> drocm_process \<Rightarrow> logger_error + drocm_process" where
  "shutdown_adapter i p =
     (if ap_shutdown_flag (dp_adapters p) then Inr p
      else bind_step (log_all [(Info, coro_cpp, 23, ''Shutting down CoroAdapter poller thread'')] p) (\<lambda>p1.
           Inr (p1\<lparr>dp_adapters := CoroAdapter_shutdown i (dp_adapters p1)\<rparr>)))"

text \<open>\<^verbatim>\<open>reset()\<close> runs the destructor: shutdown, then the thread is stopped and joined, and its last
  message comes before the join returns.\<close>

definition join_poller :: "nat \<Rightarrow> adapter_process \<Rightarrow> adapter_process" where
  "join_poller i ap =
     (let c = ap_adapters ap i
      in ap\<lparr>ap_adapters := (ap_adapters ap)(i := c\<lparr>ca_poller_thread := join (request_stop (ca_poller_thread c))\<rparr>)\<rparr>)"

definition reset_adapter :: "nat \<Rightarrow> drocm_process \<Rightarrow> logger_error + drocm_process" where
  "reset_adapter i p =
     bind_step (shutdown_adapter i p) (\<lambda>p1.
     bind_step (log_all [(Info, coro_cpp, 127, ''CoroAdapter poller thread exited'')] p1) (\<lambda>p2.
     Inr (p2\<lparr>dp_adapters := join_poller i (dp_adapters p2)\<rparr>)))"

definition main_banner :: "(level \<times> string \<times> nat \<times> string) list" where
  "main_banner =
     [(Info, main_cpp, 23, ''==========================================''),
      (Info, main_cpp, 24, ''  D-RoCM - Distributed Robot Control Middleware''),
      (Info, main_cpp, 25, ''==========================================''),
      (Info, main_cpp, 28, ''Version: '' @ VersionInfo_toString),
      (Info, main_cpp, 29, ''Build: C++20 | gRPC | Protobuf''),
      (Info, main_cpp, 30, ''==========================================''),
      (Info, main_cpp, 31, VersionInfo_toString @ '' starting''),
      (Debug, main_cpp, 32, ''Logger initialized with async multi-sink (console + file)'')]"

text \<open>The exit code and the process state, or the null dereference of a log call.\<close>

definition drocm_main :: "drocm_process \<Rightarrow> logger_error + int \<times> drocm_process" where
  "drocm_main p =
     bind_step (log_all main_banner (p\<lparr>dp_logger := snd (Logger_init ''logs'' 8192 1 (dp_logger p))\<rparr>)) (\<lambda>p1.
     bind_step (make_adapter 0 p1) (\<lambda>p2.
     bind_step (log_all [(Info, main_cpp, 36, ''CoroAdapter initialized, poller thread running'')] p2) (\<lambda>p3.
     if CoroAdapter_is_running (ap_adapters (dp_adapters p3) 0) then
       bind_step (log_all [(Info, main_cpp, 40, ''CompletionQueue poller thread is active''),
                 (Info, main_cpp, 47, ''Phase 0.1-0.3 & Phase 1.1/1.2 initialization complete''),
                 (Info, main_cpp, 48, ''Ready for next phases (registry, node, streaming)'')] p3) (\<lambda>p4.
       bind_step (shutdown_adapter 0 p4) (\<lambda>p5.
       bind_step (reset_adapter 0 p5) (\<lambda>p6.
       bind_step (log_all [(Info, main_cpp, 54, ''D-RoCM exited cleanly'')] p6) (\<lambda>p7.
       Inr (0, p7\<lparr>dp_logger := Logger_shutdown (dp_logger p7)\<rparr>)))))
     else
       bind_step (log_all [(Err, main_cpp, 43, ''CoroAdapter poller thread failed to start!'')] p3) (\<lambda>p4.
       bind_step (reset_adapter 0 p4) (\<lambda>p5. Inr (1, p5))))))"

section \<open>Running main.cpp\<close>

text \<open>A statement that ends without error, with the logger still open and given adapters.\<close>

definition runs :: "adapter_process \<Rightarrow> logger_error + drocm_process \<Rightarrow> bool" where
  "runs a x \<longleftrightarrow> (\<exists>p. x = Inr p \<and> lg_instance (dp_logger p) \<noteq> None \<and> dp_adapters p = a)"

lemma runs_bind:
  "runs a x \<Longrightarrow> (\<And>p. lg_instance (dp_logger p) \<noteq> None \<Longrightarrow> dp_adapters p = a \<Longrightarrow> P (f p)) \<Longrightarrow> P (bind_step x f)"
  by (auto simp: runs_def bind_step_def)

lemma runs_log_all:
  "lg_instance (dp_logger p) \<noteq> None \<Longrightarrow> runs (dp_adapters p) (log_all ms p)"
proof (induction ms arbitrary: p)
  case Nil
  then show ?case by (simp add: runs_def)
next
  case (Cons m ms)
  obtain lvl fl line msg where m: "m = (lvl, fl, line, msg)" by (metis prod_cases4)
  obtain s where s: "DROCM_LOG lvl fl line msg (dp_logger p) = Inr s" "lg_instance s \<noteq> None"
    using Cons.prems by (auto simp: DROCM_LOG_def Logger_get_def)
  with Cons.IH [of "p\<lparr>dp_logger := s\<rparr>"] show ?case by (simp add: m)
qed

lemma runs_make_adapter:
  assumes "lg_instance (dp_logger p) \<noteq> None"
  shows "runs ((dp_adapters p)\<lparr>ap_adapters := (ap_adapters (dp_adapters p))(i := CoroAdapter_new)\<rparr>) (make_adapter i p)"
proof -
  let ?p = "p\<lparr>dp_adapters := (dp_adapters p)\<lparr>ap_adapters := (ap_adapters (dp_adapters p))(i := CoroAdapter_new)\<rparr>\<rparr>"
  have "lg_instance (dp_logger ?p) \<noteq> None" using assms by simp
  then have "runs (dp_adapters ?p) (make_adapter i p)"
    unfolding make_adapter_def by (rule runs_log_all)
  then show ?thesis by simp
qed

lemma runs_shutdown_adapter:
  assumes "lg_instance (dp_logger p) \<noteq> None"
  shows "runs (CoroAdapter_shutdown i (dp_adapters p)) (shutdown_adapter i p)"
proof (cases "ap_shutdown_flag (dp_adapters p)")
  case True
  with assms show ?thesis by (simp add: runs_def shutdown_adapter_def CoroAdapter_shutdown_def)
next
  case False
  show ?thesis
    unfolding shutdown_adapter_def if_not_P [OF False]
    by (rule runs_bind [OF runs_log_all [OF assms]]) (simp add: runs_def)
qed

lemma runs_reset_adapter:
  assumes "lg_instance (dp_logger p) \<noteq> None"
  shows "runs (join_poller i (CoroAdapter_shutdown i (dp_adapters p))) (reset_adapter i p)"
  unfolding reset_adapter_def
  apply (rule runs_bind [OF runs_shutdown_adapter [OF assms]])
  apply (rule runs_bind [OF runs_log_all])
   apply assumption
  apply (simp add: runs_def)
  done

end
