(* ===== verification/Node_Table_Tests.thy ===== *)
theory Node_Table_Tests
  imports Node_Table
begin

text \<open>
  The unit tests of \<^verbatim>\<open>tests/test_node_table.cpp\<close> on the model of the node table. A test is the
  conjunction of its expectations, for every value of the clock. The last one runs two threads; it is
  every interleaving of the calls of the two, as each call takes the table's lock.
\<close>

section \<open>The tests\<close>

definition make_node_info :: "string \<Rightarrow> string \<Rightarrow> u32 \<Rightarrow> string list \<Rightarrow> NodeInfo" where
  "make_node_info nid ip prt svcs =
     NodeInfo_default\<lparr>node_id := nid, ip_address := ip, port := prt, services := svcs\<rparr>"

text \<open>The defaults of its last three arguments.\<close>

abbreviation node_named :: "string \<Rightarrow> NodeInfo" where
  "node_named nid \<equiv> make_node_info nid ''127.0.0.1'' 50052 [''lidar'']"

definition RegisterAndDeregisterNode :: "time_point \<Rightarrow> bool" where
  "RegisterAndDeregisterNode now =
     (let (r1, t1) = register_node (node_named ''node_01'') ''session_01'' now (NodeTable_new 100);
          (r2, t2) = deregister_node ''node_01'' t1
      in r1 \<and> has_node ''node_01'' t1 \<and> get_node_count t1 = 1 \<and>
         r2 \<and> \<not> has_node ''node_01'' t2 \<and> get_node_count t2 = 0)"

definition RejectDuplicateRegistration :: "time_point \<Rightarrow> bool" where
  "RejectDuplicateRegistration now =
     (let (r1, t1) = register_node (node_named ''node_01'') ''session_01'' now (NodeTable_new 100);
          (r2, t2) = register_node (node_named ''node_01'') ''session_02'' now t1
      in r1 \<and> \<not> r2)"

definition RejectRegistrationWhenTableFull :: "time_point \<Rightarrow> bool" where
  "RejectRegistrationWhenTableFull now =
     (let (r1, t1) = register_node (node_named ''node_01'') ''session_01'' now (NodeTable_new 1);
          (r2, t2) = register_node (node_named ''node_02'') ''session_02'' now t1
      in r1 \<and> \<not> r2)"

text \<open>\<^verbatim>\<open>15.0f\<close>, \<^verbatim>\<open>45.0f\<close> and the other loads as bit patterns.\<close>

definition UpdateHeartbeatResetsMissedCounter :: "time_point \<Rightarrow> bool" where
  "UpdateHeartbeatResetsMissedCounter now =
     (let (_, t1) = register_node (node_named ''node_01'') ''session_01'' now (NodeTable_new 100);
          t2 = increment_all_missed_heartbeats t1;
          (_, t3) = update_heartbeat ''node_01'' 0x41700000 0x42340000 2 now t2
      in map_option missed_heartbeats (get_node ''node_01'' t2) = Some 1 \<and>
         map_option missed_heartbeats (get_node ''node_01'' t3) = Some 0)"

definition DiscoverReturnsOnlyHealthyNodes :: "time_point \<Rightarrow> bool" where
  "DiscoverReturnsOnlyHealthyNodes now =
     (let (_, t1) = register_node (node_named ''healthy_lidar'') ''session_01'' now (NodeTable_new 100);
          (_, t2) = register_node (node_named ''unhealthy_lidar'') ''session_02'' now t1;
          (_, t3) = register_node (node_named ''another_healthy_lidar'') ''session_03'' now t2;
          t4 = increment_all_missed_heartbeats t3;
          (_, t5) = update_heartbeat ''healthy_lidar'' 0x41200000 0x42200000 1 now t4;
          (_, t6) = update_heartbeat ''another_healthy_lidar'' 0x41400000 0x42280000 1 now t5;
          nodes = get_nodes_by_service [] t6
      in length nodes = 2 \<and> list_all (\<lambda>e. node_id (info e) \<noteq> ''unhealthy_lidar'') nodes)"

definition DiscoverFiltersByServiceName :: "time_point \<Rightarrow> bool" where
  "DiscoverFiltersByServiceName now =
     (let (_, t1) = register_node (make_node_info ''lidar_01'' ''127.0.0.1'' 50052 [''lidar'']) ''s1'' now (NodeTable_new 100);
          (_, t2) = register_node (make_node_info ''camera_01'' ''127.0.0.1'' 50053 [''camera'']) ''s2'' now t1;
          (_, t3) = register_node (make_node_info ''fusion_01'' ''127.0.0.1'' 50054 [''lidar'', ''camera'']) ''s3'' now t2
      in length (get_nodes_by_service [''lidar''] t3) = 2 \<and> length (get_nodes_by_service [''camera''] t3) = 2 \<and>
         length (get_nodes_by_service [''lidar'', ''camera''] t3) = 3)"

definition DiscoverReturnsEmptyWhenNoHealthyNodes :: "time_point \<Rightarrow> bool" where
  "DiscoverReturnsEmptyWhenNoHealthyNodes now =
     (let (_, t1) = register_node (node_named ''node_01'') ''s1'' now (NodeTable_new 100);
          (_, t2) = register_node (node_named ''node_02'') ''s2'' now t1;
          t3 = increment_all_missed_heartbeats
                 (increment_all_missed_heartbeats (increment_all_missed_heartbeats t2))
      in length (get_nodes_by_service [] t3) = 0)"

definition DiscoverWithEmptyFilterReturnsAllHealthy :: "time_point \<Rightarrow> bool" where
  "DiscoverWithEmptyFilterReturnsAllHealthy now =
     (let (_, t1) = register_node (make_node_info ''node_01'' ''127.0.0.1'' 50052 [''lidar'']) ''s1'' now (NodeTable_new 100);
          (_, t2) = register_node (make_node_info ''node_02'' ''127.0.0.1'' 50053 [''camera'']) ''s2'' now t1
      in length (get_nodes_by_service [] t2) = 2)"

definition RemoveStaleNodesRemovesUnhealthyNodes :: "time_point \<Rightarrow> bool" where
  "RemoveStaleNodesRemovesUnhealthyNodes now =
     (let (_, t1) = register_node (node_named ''healthy_node'') ''s1'' now (NodeTable_new 100);
          (_, t2) = register_node (node_named ''stale_node'') ''s2'' now t1;
          t3 = increment_all_missed_heartbeats
                 (increment_all_missed_heartbeats (increment_all_missed_heartbeats t2));
          (_, t4) = update_heartbeat ''healthy_node'' 0x41200000 0x42200000 1 now t3;
          (removed, t5) = remove_stale_nodes 3 t4
      in removed = [''stale_node''] \<and> get_node_count t5 = 1 \<and> has_node ''healthy_node'' t5)"

text \<open>The operations of the two threads of \<^verbatim>\<open>ConcurrentRegisterAndDiscover\<close>: the table at the end and
  the sizes the reader saw.\<close>

datatype test_op = WriterRegisters nat | ReaderDiscovers

fun exec_test :: "time_point \<Rightarrow> test_op list \<Rightarrow> NodeTable \<Rightarrow> nat list \<times> NodeTable" where
  "exec_test now [] t = ([], t)"
| "exec_test now (WriterRegisters i # ops) t =
     exec_test now ops
       (snd (register_node (node_named (''node_'' @ to_string (int i))) (''s_'' @ to_string (int i)) now t))"
| "exec_test now (ReaderDiscovers # ops) t =
     (let (sizes, t') = exec_test now ops t in (length (get_nodes_by_service [] t) # sizes, t'))"

definition ConcurrentRegisterAndDiscover :: "time_point \<Rightarrow> bool" where
  "ConcurrentRegisterAndDiscover now =
     (let t0 = snd (exec_test now (map WriterRegisters [0..<10]) (NodeTable_new 1000))
      in \<forall>ops \<in> shuffles (map WriterRegisters [10..<20]) (replicate 100 ReaderDiscovers).
           let (sizes, t) = exec_test now ops t0
           in list_all (\<lambda>n. n \<le> 20) sizes \<and> get_node_count t = 20)"

section \<open>They pass\<close>

lemma single_thread_tests:
  "RegisterAndDeregisterNode now"
  "RejectDuplicateRegistration now"
  "RejectRegistrationWhenTableFull now"
  "UpdateHeartbeatResetsMissedCounter now"
  "DiscoverReturnsOnlyHealthyNodes now"
  "DiscoverFiltersByServiceName now"
  "DiscoverReturnsEmptyWhenNoHealthyNodes now"
  "DiscoverWithEmptyFilterReturnsAllHealthy now"
  "RemoveStaleNodesRemovesUnhealthyNodes now"
  by code_simp+

text \<open>In the concurrent test the reader does not change the table, and what it sees is bounded by the
  table at the end, which only depends on the writer.\<close>

lemma exec_test_writes: "snd (exec_test now ops t) = snd (exec_test now (filter (\<lambda>op. op \<noteq> ReaderDiscovers) ops) t)"
  by (induction now ops t rule: exec_test.induct) (auto split: prod.split)

lemma register_node_grows: "length (nt_nodes t) \<le> length (nt_nodes (snd (register_node i sid now t)))"
  by (auto simp: register_node_def um_try_emplace_def split: option.split)

lemma exec_test_grows: "length (nt_nodes t) \<le> length (nt_nodes (snd (exec_test now ops t)))"
  by (induction now ops t rule: exec_test.induct)
    (auto split: prod.split intro: le_trans [OF register_node_grows])

lemma discovered_le: "length (get_nodes_by_service flt t) \<le> length (nt_nodes t)"
  by (simp add: get_nodes_by_service_eq le_trans [OF length_filter_le])

lemma exec_test_sizes: "list_all (\<lambda>n. n \<le> length (nt_nodes (snd (exec_test now ops t)))) (fst (exec_test now ops t))"
proof (induction now ops t rule: exec_test.induct)
  case (3 now ops t)
  then show ?case
    using le_trans [OF discovered_le exec_test_grows, of "[]" t now ops] by (auto split: prod.split)
qed simp_all

lemma shuffled_writes:
  assumes "ops \<in> shuffles xs (replicate n ReaderDiscovers)" and "ReaderDiscovers \<notin> set xs"
  shows "filter (\<lambda>op. op \<noteq> ReaderDiscovers) ops = xs"
proof -
  have "filter (\<lambda>op. op \<noteq> ReaderDiscovers) ops \<in>
      shuffles (filter (\<lambda>op. op \<noteq> ReaderDiscovers) xs) (filter (\<lambda>op. op \<noteq> ReaderDiscovers) (replicate n ReaderDiscovers))"
    using assms(1) filter_shuffles by blast
  moreover have "filter (\<lambda>op. op \<noteq> ReaderDiscovers) xs = xs" using assms(2) by (intro filter_True) auto
  ultimately show ?thesis by simp
qed

lemma twenty_nodes: "length (nt_nodes (snd (exec_test now (map WriterRegisters [0..<20]) (NodeTable_new 1000)))) = 20"
  by code_simp

lemma exec_test_append: "snd (exec_test now (xs @ ys) t) = snd (exec_test now ys (snd (exec_test now xs t)))"
  by (induction now xs t rule: exec_test.induct) (auto split: prod.split)

lemma concurrent_test: "ConcurrentRegisterAndDiscover now"
proof -
  let ?t0 = "snd (exec_test now (map WriterRegisters [0..<10]) (NodeTable_new 1000))"
  have "length (nt_nodes (snd (exec_test now ops ?t0))) = 20"
    if "ops \<in> shuffles (map WriterRegisters [10..<20]) (replicate 100 ReaderDiscovers)" for ops
  proof -
    have "filter (\<lambda>op. op \<noteq> ReaderDiscovers) ops = map WriterRegisters [10..<20]"
      using that by (rule shuffled_writes) auto
    then have "snd (exec_test now ops ?t0) = snd (exec_test now (map WriterRegisters [0..<10] @ map WriterRegisters [10..<20]) (NodeTable_new 1000))"
      using exec_test_writes [of now ops ?t0] by (simp only: exec_test_append)
    also have "map WriterRegisters [0..<10] @ map WriterRegisters [10..<20] = map WriterRegisters [0..<20]"
      by (simp add: upt_rec)
    finally show ?thesis by (simp only: twenty_nodes)
  qed
  then have "list_all (\<lambda>n. n \<le> 20) (fst (exec_test now ops ?t0)) \<and> get_node_count (snd (exec_test now ops ?t0)) = 20"
    if "ops \<in> shuffles (map WriterRegisters [10..<20]) (replicate 100 ReaderDiscovers)" for ops
    using that exec_test_sizes [of now ops ?t0] by (simp add: get_node_count_def)
  then show ?thesis
    unfolding ConcurrentRegisterAndDiscover_def Let_def by (auto simp: split_beta)
qed

text \<open>Every unit test of the node table passes on the model, whatever the clock shows: registration,
  rejection of duplicates and of nodes beyond the capacity, heartbeats, discovery by health and by
  service, removal of stale nodes, and the concurrent test for every interleaving of its two
  threads.\<close>

lemma unit_tests_pass:
  "RegisterAndDeregisterNode now \<and> RejectDuplicateRegistration now \<and> RejectRegistrationWhenTableFull now \<and>
   UpdateHeartbeatResetsMissedCounter now \<and> DiscoverReturnsOnlyHealthyNodes now \<and>
   DiscoverFiltersByServiceName now \<and> DiscoverReturnsEmptyWhenNoHealthyNodes now \<and>
   DiscoverWithEmptyFilterReturnsAllHealthy now \<and> RemoveStaleNodesRemovesUnhealthyNodes now \<and>
   ConcurrentRegisterAndDiscover now"
  using single_thread_tests concurrent_test by blast

end
