(* ===== verification/Spec2Isabelle.thy ===== *)
theory Spec2Isabelle
  imports Programs Node_Table_Tests
begin

text \<open>
  D-RoCM, a middleware for distributed robot control in C++20 with gRPC. This development models its
  C++ sources and proves what makes them correct. Paths below are relative to the repository.

  \<^bold>\<open>The program.\<close> A registry server (\<^verbatim>\<open>src/registry\<close>, started by \<^verbatim>\<open>examples/registry_server.cpp\<close>)
  keeps a table of nodes. Nodes register, send heartbeats, deregister and discover each other by
  service through four RPC calls, while a health checker thread ages all entries once per interval and
  evicts the ones that missed too many heartbeats. A node is either derived from the base class in
  \<^verbatim>\<open>src/node\<close>, which has a heartbeat thread with reconnection, or the LIDAR node of
  \<^verbatim>\<open>examples/lidar_emulator.cpp\<close>, which has its own heartbeat thread, a streaming service and a
  metrics endpoint. \<^verbatim>\<open>src/core/coro\<close> resumes coroutines from a gRPC completion queue,
  \<^verbatim>\<open>src/utils\<close> has the logger and the metrics, \<^verbatim>\<open>src/main.cpp\<close> starts and stops logger and adapter.

  \<^bold>\<open>How code becomes definitions.\<close> A class is a record, an enumeration a datatype, a method a function
  from the object to its result and the new object; \<^verbatim>\<open>uint32_t\<close>, \<^verbatim>\<open>uint64_t\<close> and \<^verbatim>\<open>int64_t\<close> are words
  of their width, arithmetic on \<^verbatim>\<open>int\<close> is option-valued with None for undefined behaviour, a
  \<^verbatim>\<open>float\<close> that is only carried along is its bit pattern and a computed \<^verbatim>\<open>double\<close> is a rational with
  explicit rounding. Errors of the code are status values, booleans or sum types; dereferencing null and
  using freed memory are error values of the model. A loop that may run forever runs over the list of
  what its iterations observe (stop flags, clock, results of outside calls), so every theorem about it
  holds for every finite run; what several threads share is a step relation over one state, with a program
  counter per thread and events of the environment (clients, signals, gRPC). Code outside the repository
  (gRPC stubs, streams and queues, the continuation of a coroutine, system calls, \<^verbatim>\<open>std::rand\<close>, clocks) is
  an argument or an event; where a theorem relies on its behaviour there is a named hypothesis
  (\<open>registry_channel\<close>, \<open>registry_link\<close>, \<open>grpc_unary\<close>, \<open>polite\<close>, \<open>fresh_fds\<close>) and a witness that instantiates it. Logging has no effect on the other components and appears only in \<open>Logger\<close> and
  \<open>Programs\<close>.

  \<^bold>\<open>The theories.\<close>
  \<^item> \<open>Drocm_Prelude\<close>: machine types, decimal rendering, threads, words, \<^verbatim>\<open>int\<close> arithmetic, association
    lists, reachability, and two interfaces as locales: \<open>transition_invariant\<close> (an inductive invariant
    lifts to all reachable states and along runs), which the registry, the adapter, the registry server and
    the LIDAR process interpret, and \<open>service_lifecycle\<close> (start and stop of a background service), which the
    health checker, the transport manager and the logger interpret.
  \<^item> \<open>Messages\<close>: the Protobuf messages of \<^verbatim>\<open>proto/\<close>, gRPC status values, the types of remote calls.
  \<^item> \<open>Unordered_Map\<close>: \<^verbatim>\<open>std::unordered_map\<close> as an association list in some iteration order, behind the
    locale \<open>hash_map\<close>.
  \<^item> \<open>Node_Table\<close> (\<^verbatim>\<open>src/registry/node_table\<close>): every operation of the table, its invariant, the loops
    against reference definitions. \<open>Node_Directory\<close>: the abstract directory, a finite map with counters,
    and the proof that the table implements it for every sequence of operations; the exact lifetime of an
    entry. \<open>Node_Table_Tests\<close>: the unit tests of \<^verbatim>\<open>tests/test_node_table.cpp\<close>, which pass on the model, the
    concurrent one for every interleaving.
  \<^item> \<open>Registry_Service\<close> (\<^verbatim>\<open>registry_service\<close>): the RPC handlers with every error branch.
    \<open>Health_Checker\<close> (\<^verbatim>\<open>health_checker\<close>): its life cycle and one round. \<open>Registry_System\<close>: handlers, shutdown
    and the checker thread as one step relation, with Register split at its two atomic accesses; the
    invariant of all reachable states, linearizability, eviction of silent nodes, absence of premature
    eviction, no wrap-around, draining after shutdown, and termination of the checker's join.
    \<open>Registry_Server\<close> (\<^verbatim>\<open>examples/registry_server.cpp\<close>): the process around it, with main, the signal and
    the gRPC server; the order of the shutdown, its progress, and the crash on an address that is taken.
  \<^item> \<open>Backoff\<close>: the contract of an exponential backoff, interpreted three times. \<open>Node_Base\<close>
    (\<^verbatim>\<open>src/node/node_base\<close>): start, stop and the heartbeat loop of the base class. \<open>Lidar_Emulator\<close>: the
    LIDAR node's client and service. \<open>Metrics_Endpoint\<close>: its metrics thread over the results of the system
    calls, with a table of open descriptors and an HTTP client that reads the answer. \<open>Lidar_Process\<close>: main,
    both threads, the handlers and the signal together; order and termination of the shutdown, what it
    waits for, and that the process refines the sequential client. \<open>Registry_Clients\<close>: both clients
    against the registry's handlers through a gRPC channel (\<open>registry_link\<close> extends the contract by
    deregistration).
  \<^item> \<open>Coro_Adapter\<close> (\<^verbatim>\<open>src/core/coro\<close>): contexts on a heap, the poller, unary and stream awaiters.
    \<open>Adapter_System\<close>: clients, gRPC, poller and owner interleaved; memory safety in every reachable state,
    the drain after a shutdown, and the leak of the destructor.
  \<^item> \<open>Float64\<close>, \<open>Metrics\<close> (\<^verbatim>\<open>src/utils/metrics\<close>), \<open>Logger\<close> (\<^verbatim>\<open>src/utils/logger\<close>), \<open>Error_Codes\<close>
    (\<^verbatim>\<open>src/core/error_codes.h\<close>, \<^verbatim>\<open>version\<close>), \<open>Transport_Manager\<close> (\<^verbatim>\<open>src/core/transport\<close>).
  \<^item> \<open>Programs\<close>: \<^verbatim>\<open>src/main.cpp\<close>. This theory has the properties that span components: the LIDAR
    node registers, stays registered and recovers after the registry forgot it; the base class registers
    and deregisters but never recovers; the main program shuts down in order.

  \<^bold>\<open>What the theorems say of the code where it is not as meant.\<close> Discovery returns nothing right after a
  health check (\<open>tick_hides_every_node\<close>); session ids are not checked and a full table is reported as a
  duplicate (\<open>Registry_Service\<close>); the reconnection of the base class is dead code, stopping a node crashes
  its heartbeat thread, and a restarted node cannot be stopped; only the first coroutine adapter of a
  process is ever shut down, a timeout resumes a coroutine twice, and destroying an adapter abandons all
  but one of its pending operations; both server programs dereference null on shutdown if their port was
  taken, and the LIDAR process does not exit before the next connection to its metrics port.

  \<^bold>\<open>Bounds and fuel.\<close> No definition uses fuel. The streaming loop is shown free of overflow below
  \<open>2 ^ 31\<close> frames, which is where its frame counter overflows; the accuracy of the average latency is
  stated below \<open>2 ^ 53\<close>, where integers stop being exact doubles.

  The shutdown of the LIDAR process is bounded by 41 steps of its own threads and one per handler, main of the
  registry server by twelve statements, the drain of a completion queue by two steps per event and three more.

  \<^bold>\<open>Not modelled.\<close> spdlog, gRPC and Protobuf themselves, and the serialisation code that Protobuf generates;
  the order of log messages of concurrent threads; the destruction of a completion queue that was not
  drained, which gRPC leaves undefined; \<^verbatim>\<open>cancel_with_timeout\<close> in the concurrent model of the adapter, as
  nothing in the repository calls it; the accessors that return a reference to a member
  (\<^verbatim>\<open>get_completion_queue\<close>, \<^verbatim>\<open>Metrics::instance\<close>); the benchmark script and the build files.
\<close>

section \<open>The LIDAR node and the registry\<close>

text \<open>Normal operation of the LIDAR node. Against a reachable registry that runs, has room and does not
  know the node, the program registers at start and every iteration of its heartbeat thread
  succeeds: it sleeps half a second each time, and the registry keeps the node healthy under the
  session id the node uses, so that discovery of the lidar service returns it.\<close>

lemma lidar_client_stays_registered:
  assumes "registry_channel reg hb" and "rs_is_running s"
    and "lookup_node (rs_node_table s) ''lidar_01'' = None"
    and "length (nt_nodes (rs_node_table s)) < unat (nt_max_nodes (rs_node_table s))"
    and "list_all (\<lambda>(heartbeat_running, g_running, _). heartbeat_running \<and> g_running) obs"
  shows "\<exists>v' s' e. lidar_client reg hb obs s = Some (v', s', replicate (length obs) 500) \<and>
           hv_consecutive_failures v' = 0 \<and>
           lookup_node (rs_node_table s') ''lidar_01'' = Some e \<and> session_id e = hv_session_id v' \<and>
           discoverable [''lidar''] e"
proof -
  let ?i = "lidar_info ''lidar_01'' 50052"
  let ?req = "RegisterRequest_default\<lparr>rq_node_info := Some ?i\<rparr>"
  obtain st r s1 rnd now where r: "reg ?req RegisterResponse_default s = (st, r, s1)" "status_ok st" "rr_success r"
      "rr_session_id r = make_session_id ?i rnd"
      "lookup_node (rs_node_table s1) ''lidar_01'' = Some (fresh_entry ?i (make_session_id ?i rnd) now)"
    using registry_channel.reg_absent [OF assms(1,2), of ?req ?i RegisterResponse_default] assms(3,4)
    by (auto simp: lidar_info_def)
  let ?v = "\<lparr>hv_session_id = make_session_id ?i rnd, hv_consecutive_failures = 0, hv_needs_reregister = False\<rparr>"
  have "try_register_node reg ''lidar_01'' 50052 ''pending'' s = (True, make_session_id ?i rnd, s1)"
    using r by (simp add: try_register_node_def)
  then have c: "lidar_client reg hb obs s = run_heartbeat_loop reg hb ''lidar_01'' 50052 obs ?v s1"
    by (simp add: lidar_client_def run_heartbeat_def)
  obtain s' e where "run_heartbeat_loop reg hb ''lidar_01'' 50052 obs ?v s1 = Some (?v, s', replicate (length obs) 500)"
      "lookup_node (rs_node_table s') ''lidar_01'' = Some e" "session_id e = make_session_id ?i rnd" "info e = ?i"
      "missed_heartbeats e = 0"
    using registry_channel.beats_known [OF assms(1) _ assms(5) _ _ r(5), of ?v 50052] by (auto simp: fresh_entry_def)
  with c show ?thesis by (auto simp: discoverable_def lidar_info_def)
qed



text \<open>C5: The LIDAR node heals itself. If the registry has forgotten the node (it was restarted, or it
  evicted the node), runs, has room and is reachable, then whatever session the node believes in, its
  heartbeat thread fails five times with waits of 0.5, 1, 2, 4 and 8 seconds and re-registers in the
  sixth iteration: the node is in the table again with its own address and service, healthy, under
  exactly the session id the thread now uses, and the failure count is back to zero.\<close>

theorem lidar_self_heals:
  assumes "registry_channel reg hb" and "rs_is_running s" and "nid \<noteq> []"
    and "lookup_node (rs_node_table s) nid = None"
    and "length (nt_nodes (rs_node_table s)) < unat (nt_max_nodes (rs_node_table s))"
    and "length obs = 6" and "list_all (\<lambda>(heartbeat_running, g_running, _). heartbeat_running \<and> g_running) obs"
  shows "\<exists>v' s' e. run_heartbeat reg hb nid prt sid obs s =
           Some (v', s', [500, 1000, 2000, 4000, 8000, 500]) \<and>
           hv_consecutive_failures v' = 0 \<and> \<not> hv_needs_reregister v' \<and>
           lookup_node (rs_node_table s') nid = Some e \<and> session_id e = hv_session_id v' \<and>
           info e = lidar_info nid prt \<and> missed_heartbeats e = 0"
proof -
  let ?v = "\<lparr>hv_session_id = sid, hv_consecutive_failures = 0, hv_needs_reregister = False\<rparr>"
  let ?v5 = "?v\<lparr>hv_consecutive_failures := 5, hv_needs_reregister := True\<rparr>"
  obtain xs a b ts where obs: "obs = xs @ [(a, b, ts)]"
    using assms(6) by (cases obs rule: rev_cases) auto
  have five: "list_all (\<lambda>(a, b, _). a \<and> b) xs" and last: "a" "b" and len: "length xs = 5 - 0"
    using assms(6,7) by (simp_all add: obs)
  obtain sid' s' e where it: "lidar_iteration reg hb nid prt ts ?v5 s =
        Some (?v5\<lparr>hv_session_id := sid', hv_needs_reregister := False, hv_consecutive_failures := 0\<rparr>, s', 500)"
      "lookup_node (rs_node_table s') nid = Some e" "session_id e = sid'" "info e = lidar_info nid prt"
      "missed_heartbeats e = 0"
    using registry_channel.iteration_reregisters [OF assms(1) _ assms(2-5), of ?v5 prt ts] by auto
  have "run_heartbeat reg hb nid prt sid (xs @ [(a, b, ts)]) s =
      Some (?v5\<lparr>hv_session_id := sid', hv_needs_reregister := False, hv_consecutive_failures := 0\<rparr>, s',
        [500, 1000, 2000, 4000, 8000, 500])"
    using registry_channel.five_failures [OF assms(1,3,4) five len, of ?v prt "[(a, b, ts)]"] it(1) last
    by (simp add: run_heartbeat_def upt_rec)
  with it(2-5) show ?thesis unfolding obs by auto
qed

theorem lidar_self_heals_witness:
  "\<exists>v' s' e. run_heartbeat (direct_register 7 5) (direct_heartbeat 5) ''lidar_01'' 50052 ''pending'' demo_on
       demo_service = Some (v', s', [500, 1000, 2000, 4000, 8000, 500]) \<and>
     lookup_node (rs_node_table s') ''lidar_01'' = Some e \<and> session_id e = hv_session_id v'"
proof -
  have "rs_is_running demo_service" "lookup_node (rs_node_table demo_service) ''lidar_01'' = None"
    "length (nt_nodes (rs_node_table demo_service)) < unat (nt_max_nodes (rs_node_table demo_service))"
    by (simp_all add: demo_service_def RegistryServiceImpl_new_def NodeTable_new_def lookup_node_def um_find_def)
  moreover have "length demo_on = 6" "list_all (\<lambda>(heartbeat_running, g_running, _). heartbeat_running \<and> g_running) demo_on"
    by (simp_all add: demo_on_def list_all_iff)
  ultimately show ?thesis
    using lidar_self_heals [OF direct.registry_channel_axioms [of 7 5], of demo_service "''lidar_01''" demo_on 50052 "''pending''"]
    by auto
qed

text \<open>A LIDAR node that wants to re-register while the registry still has it in its table is locked
  out: each attempt is refused as a duplicate, no heartbeat is sent meanwhile, and the thread only
  waits two seconds per iteration with everything unchanged, until the registry evicts the node.\<close>

lemma lidar_waits_for_eviction:
  assumes "registry_channel reg hb" and "hv_needs_reregister v"
    and "lookup_node (rs_node_table s) nid \<noteq> None"
    and "list_all (\<lambda>(heartbeat_running, g_running, _). heartbeat_running \<and> g_running) obs"
  shows "\<exists>s'. run_heartbeat_loop reg hb nid prt obs v s = Some (v, s', replicate (length obs) 2000) \<and>
           lookup_node (rs_node_table s') = lookup_node (rs_node_table s)"
  using assms(3,4)
proof (induction obs arbitrary: s)
  case (Cons ob obs)
  obtain a b ts where ob: "ob = (a, b, ts)" by (metis prod_cases3)
  obtain s1 where it: "lidar_iteration reg hb nid prt ts v s = Some (v, s1, 2000)"
      "lookup_node (rs_node_table s1) = lookup_node (rs_node_table s)"
    using iteration_still_registered [OF assms(1,2) Cons.prems(1)] by blast
  with Cons.IH [of s1] Cons.prems obtain s' where
    "run_heartbeat_loop reg hb nid prt obs v s1 = Some (v, s', replicate (length obs) 2000)"
    "lookup_node (rs_node_table s') = lookup_node (rs_node_table s)" by auto
  with it Cons.prems(2) show ?case by (simp add: ob)
qed simp

section \<open>The node base class and the registry\<close>

text \<open>C15: The reconnection code of the node base class never runs: gRPC delivers the reconnect flag
  only with an OK status and the registry sets it only together with NOT_FOUND, so whatever the
  registry and the network do, the heartbeat loop makes no attempt, keeps its session and its
  attempt counter, never gives up and never reports a reconnection. A node that was evicted stays
  unregistered for good.\<close>

theorem node_never_reconnects:
  assumes "grpc_unary heartbeat_answers hb" and "nd_registry_stub n"
  shows "\<exists>x w' acts. heartbeat_loop hb reg obs n 0 w = Inr (x, n, 0, w', acts) \<and>
           x \<noteq> GaveUp \<and> attempts_in acts = [] \<and> OnReconnected \<notin> set acts"
proof (induction obs arbitrary: w)
  case (Cons ob obs)
  obtain w1 where b: "heartbeat_body hb reg ob n 0 w = Inr (Continue, n, 0, w1, [])"
    using body_never_reconnects [OF assms] by blast
  from Cons.IH [of w1] obtain x w' acts where
    "heartbeat_loop hb reg obs n 0 w1 = Inr (x, n, 0, w', acts)" "x \<noteq> GaveUp" "attempts_in acts = []"
    "OnReconnected \<notin> set acts" by blast
  with b show ?case by (cases "ob_stop_after ob") auto
qed simp

theorem node_never_reconnects_witness:
  "\<exists>x w' acts. heartbeat_loop (direct_heartbeat 5) (direct_register 7 5) (replicate 20 demo_obs) demo_running_node 0
       demo_service = Inr (x, demo_running_node, 0, w', acts) \<and> attempts_in acts = []"
proof -
  have "grpc_unary heartbeat_answers (direct_heartbeat 5)"
    by (auto simp: grpc_unary_def direct_heartbeat_def deliver_def heartbeat_answers_def) (metis prod.collapse)
  from node_never_reconnects [OF this demo_running_node_fields(1)] show ?thesis by blast
qed



section \<open>The main programs\<close>

text \<open>C33: The main program exits cleanly. Started in a fresh process it returns 0; no log call, the last
  one of the poller thread included, meets a null logger, because the adapter is torn down before the
  logger; and in the end the adapter's queue is shut down, its thread is joined and the logger is
  closed.\<close>

theorem main_exits_cleanly:
  assumes "lg_instance (dp_logger p) = None" and "\<not> ap_shutdown_flag (dp_adapters p)"
  shows "\<exists>p'. drocm_main p = Inr (0, p') \<and> lg_instance (dp_logger p') = None \<and>
           ca_cq_shutdown (ap_adapters (dp_adapters p') 0) \<and>
           ca_poller_thread (ap_adapters (dp_adapters p') 0) = NotJoinable"
proof -
  let ?p0 = "p\<lparr>dp_logger := snd (Logger_init ''logs'' 8192 1 (dp_logger p))\<rparr>"
  have "lg_instance (dp_logger ?p0) \<noteq> None" using assms(1) by (simp add: Logger_init_def Let_def)
  then show ?thesis
    unfolding drocm_main_def
    apply (rule runs_bind [OF runs_log_all])
    apply (rule runs_bind [OF runs_make_adapter], assumption)
    apply (rule runs_bind [OF runs_log_all], assumption)
    apply (subst if_P)
     apply (simp add: CoroAdapter_is_running_def CoroAdapter_new_def)
    apply (rule runs_bind [OF runs_log_all], assumption)
    apply (rule runs_bind [OF runs_shutdown_adapter], assumption)
    apply (rule runs_bind [OF runs_reset_adapter], assumption)
    apply (rule runs_bind [OF runs_log_all], assumption)
    using assms(2)
    apply (simp add: CoroAdapter_shutdown_def join_poller_def join_def Logger_shutdown_def)
    done
qed

theorem main_exits_cleanly_witness:
  "\<exists>p'. drocm_main \<lparr>dp_logger = \<lparr>lg_instance = None, lg_output = []\<rparr>,
       dp_adapters = \<lparr>ap_adapters = (\<lambda>_. CoroAdapter_new), ap_shutdown_flag = False\<rparr>\<rparr> = Inr (0, p')"
  using main_exits_cleanly [of "\<lparr>dp_logger = \<lparr>lg_instance = None, lg_output = []\<rparr>,
       dp_adapters = \<lparr>ap_adapters = (\<lambda>_. CoroAdapter_new), ap_shutdown_flag = False\<rparr>\<rparr>"] by auto

end
